theory Spec2Isabelle
  imports
    Main
    "HOL-Library.Sublist"
    "HOL-Library.Char_ord"
    "HOL-Library.List_Lexorder"
    "HOL-Library.Multiset"
begin

section \<open>FlameUp: a directory-snapshot backup utility\<close>

text \<open>
  The program is one C++ file, \<^verbatim>\<open>main.cpp\<close>, a "Windows Backup Tool" built on
  \<^verbatim>\<open>std::filesystem\<close>. Its functions are embedded below under their own names. What they
  call from the standard library (the file system, the clocks, the streams) is modelled
  first; every choice made there is stated where it is made.
\<close>

subsection \<open>Strings, numbers and streams\<close>

text \<open>
  \<^verbatim>\<open>std::string\<close> is \<^typ>\<open>string\<close>; \<^verbatim>\<open>operator<\<close> on it compares bytes as unsigned
  values, lexicographically, which is the order of \<^theory_text>\<open>List_Lexorder\<close> over
  \<^theory_text>\<open>Char_ord\<close>. A stream is the list of the lines written to it (every output
  statement of the program ends its text with a newline).
\<close>

definition digit_char :: "nat \<Rightarrow> char" where
  "digit_char d = ''0123456789'' ! d"

fun show_nat :: "nat \<Rightarrow> string" where
  "show_nat n = (if n < 10 then [digit_char n] else show_nat (n div 10) @ [digit_char (n mod 10)])"

declare show_nat.simps [simp del]

definition show_int :: "int \<Rightarrow> string" where
  "show_int i = (if i < 0 then CHR ''-'' # show_nat (nat (- i)) else show_nat (nat i))"

text \<open>\<^verbatim>\<open>std::string::starts_with\<close>.\<close>

definition starts_with :: "string \<Rightarrow> string \<Rightarrow> bool" where
  "starts_with s p = prefix p s"

text \<open>
  Writing a \<^verbatim>\<open>std::filesystem::path\<close> to a stream quotes it (\<^verbatim>\<open>std::quoted\<close>): a double
  quote in front and behind, and a backslash before every double quote and backslash.
\<close>

definition quoted :: "string \<Rightarrow> string" where
  "quoted s =
     CHR 0x22 # concat (map (\<lambda>c. if c = CHR 0x22 \<or> c = CHR 0x5C then [CHR 0x5C, c] else [c]) s)
       @ [CHR 0x22]"

text \<open>The check mark the program prints, as its three UTF-8 bytes.\<close>

definition check_mark :: string where
  "check_mark = [CHR 0xE2, CHR 0x9C, CHR 0x93]"

subsection \<open>Paths\<close>

text \<open>
  A \<^verbatim>\<open>std::filesystem::path\<close> is kept as its string in the generic format: components
  separated by \<^verbatim>\<open>/\<close>, no root name (drive letter). The operating system resolves such a
  string to a location, the list of the names from the top of the tree down; the top is
  at once the root directory and the working directory of the process. Resolution is
  lexical, as on Windows: an empty component and \<^verbatim>\<open>.\<close> are skipped, \<^verbatim>\<open>..\<close> steps back to the
  parent (and stays at the top there). Names are compared as they are written, letter
  case included.
\<close>

type_synonym loc = "string list"

fun split_on :: "char \<Rightarrow> string \<Rightarrow> string list" where
  "split_on d [] = [[]]"
| "split_on d (c # cs) =
     (if c = d then [] # split_on d cs
      else (case split_on d cs of [] \<Rightarrow> [[c]] | f # fs \<Rightarrow> (c # f) # fs))"

definition components :: "string \<Rightarrow> string list" where
  "components s = split_on CHR ''/'' s"

definition norm_step :: "loc \<Rightarrow> string \<Rightarrow> loc" where
  "norm_step acc c =
     (if c = [] \<or> c = ''.'' then acc else if c = ''..'' then butlast acc else acc @ [c])"

definition resolve :: "string \<Rightarrow> loc" where
  "resolve s = foldl norm_step [] (components s)"

text \<open>\<^verbatim>\<open>path::operator/\<close>: a right operand with a root directory replaces the left one.\<close>

definition has_root_directory :: "string \<Rightarrow> bool" where
  "has_root_directory s = (s \<noteq> [] \<and> hd s = CHR ''/'')"

definition path_append :: "string \<Rightarrow> string \<Rightarrow> string" where
  "path_append p q =
     (if has_root_directory q then q
      else if p = [] then q
      else if last p = CHR ''/'' then p @ q
      else p @ ''/'' @ q)"

definition filename :: "string \<Rightarrow> string" where
  "filename s = last (components s)"

fun join :: "string list \<Rightarrow> string" where
  "join [] = []"
| "join [c] = c"
| "join (c # cs) = c @ ''/'' @ join cs"

definition parent_path :: "string \<Rightarrow> string" where
  "parent_path s =
     (let cs = butlast (components s);
          ds = rev (dropWhile (\<lambda>c. c = []) (rev cs))
      in if cs = [] then [] else if ds = [] then ''/'' else join ds)"

definition has_parent_path :: "string \<Rightarrow> bool" where
  "has_parent_path s = (parent_path s \<noteq> [])"

text \<open>A name that a directory can hold.\<close>

definition valid_name :: "string \<Rightarrow> bool" where
  "valid_name c = (c \<noteq> [] \<and> c \<noteq> ''.'' \<and> c \<noteq> ''..'' \<and> CHR ''/'' \<notin> set c)"

subsection \<open>The file system\<close>

text \<open>
  The tree is the list of its entries, each a location with what is there: a regular
  file with its content, or a directory. The top (the empty location) is a directory
  that is always there. No entry is a symbolic link, and no operation is refused for
  lack of permission: an operation fails only for the reasons written out below.
\<close>

datatype entry = RegularFile string | Directory

type_synonym filesystem = "(loc \<times> entry) list"

definition lookup :: "filesystem \<Rightarrow> loc \<Rightarrow> entry option" where
  "lookup t p = (if p = [] then Some Directory else map_of t p)"

text \<open>\<^verbatim>\<open>fs::status\<close>: nothing is at the empty path.\<close>

definition status :: "string \<Rightarrow> filesystem \<Rightarrow> entry option" where
  "status s t = (if s = [] then None else lookup t (resolve s))"

definition fs_exists :: "string \<Rightarrow> filesystem \<Rightarrow> bool" where
  "fs_exists s t = (status s t \<noteq> None)"

definition is_directory :: "string \<Rightarrow> filesystem \<Rightarrow> bool" where
  "is_directory s t = (status s t = Some Directory)"

text \<open>
  \<^verbatim>\<open>fs::directory_iterator\<close>: the entries directly in a directory, each as the path it is
  reached by (the directory's path, then the name) and its kind; \<open>None\<close> when the
  constructor throws because the path is not a directory. The order of the entries is
  the order of the stored list, which is as arbitrary as the order the standard leaves
  unspecified.
\<close>

definition directory_iterator :: "string \<Rightarrow> filesystem \<Rightarrow> (string \<times> entry) list option" where
  "directory_iterator s t =
     (if is_directory s t
      then Some (map (\<lambda>(q, e). (path_append s (last q), e))
                  (filter (\<lambda>(q, e). q \<noteq> [] \<and> butlast q = resolve s) t))
      else None)"

text \<open>
  The tree without what a path names and everything below it; the empty path names
  nothing.
\<close>

definition erase :: "string \<Rightarrow> filesystem \<Rightarrow> filesystem" where
  "erase s t = (if s = [] then t else filter (\<lambda>(q, e). \<not> prefix (resolve s) q) t)"

text \<open>
  \<^verbatim>\<open>fs::remove_all\<close> deletes the contents of a directory, then the entry itself "as if by
  POSIX \<^verbatim>\<open>remove()\<close>". That last step is refused for the top of the tree, which is the root
  directory and the working directory of the process, and for a path written with a
  final \<^verbatim>\<open>.\<close> or \<^verbatim>\<open>..\<close>, which \<^verbatim>\<open>rmdir\<close> does not take. Then \<^verbatim>\<open>remove_all\<close> throws (\<open>False\<close>), with
  the contents gone and the entry still there.
\<close>

definition remove_refused :: "string \<Rightarrow> bool" where
  "remove_refused s = (resolve s = [] \<or> filename s = ''.'' \<or> filename s = ''..'')"

definition remove_all :: "string \<Rightarrow> filesystem \<Rightarrow> bool \<times> filesystem" where
  "remove_all s t =
     (if fs_exists s t \<and> remove_refused s
      then (False, filter (\<lambda>(q, e). \<not> strict_prefix (resolve s) q) t)
      else (True, erase s t))"

text \<open>
  \<^verbatim>\<open>fs::create_directories\<close>: every missing directory on the way, from the top down. It
  throws (\<open>False\<close>) at a regular file on the way, keeping what it has created.
\<close>

fun mkdirs :: "loc \<Rightarrow> string list \<Rightarrow> filesystem \<Rightarrow> bool \<times> filesystem" where
  "mkdirs base [] t = (True, t)"
| "mkdirs base (c # cs) t =
     (case lookup t (base @ [c]) of
        Some Directory \<Rightarrow> mkdirs (base @ [c]) cs t
      | Some (RegularFile x) \<Rightarrow> (False, t)
      | None \<Rightarrow> mkdirs (base @ [c]) cs (t @ [(base @ [c], Directory)]))"

definition create_directories :: "string \<Rightarrow> filesystem \<Rightarrow> bool \<times> filesystem" where
  "create_directories s t = (if s = [] then (False, t) else mkdirs [] (resolve s) t)"

text \<open>
  \<^verbatim>\<open>fs::copy_file\<close> without options: the target must not exist, its parent must be a
  directory.
\<close>

definition copy_file :: "string \<Rightarrow> loc \<Rightarrow> filesystem \<Rightarrow> bool \<times> filesystem" where
  "copy_file content p t =
     (if p \<noteq> [] \<and> lookup t p = None \<and> lookup t (butlast p) = Some Directory
      then (True, t @ [(p, RegularFile content)]) else (False, t))"

text \<open>
  \<^verbatim>\<open>fs::copy\<close> with \<^verbatim>\<open>copy_options::recursive\<close>, from a directory. The entries below the
  source, parents before their children, are taken to the same place below the target
  (\<open>k\<close> is the length of the source's location). A directory is created unless it is
  there; at a regular file of that name the copy throws. A regular file is copied with
  \<^verbatim>\<open>copy_file\<close>, into the directory of its name if there is one at the target. The copy
  stops at the first failure and keeps what it has written. The recursion reaches an
  entry only through its parent, which it has just created or found, so the parent is
  tested for the target itself only.
\<close>

fun copy_entries :: "(loc \<times> entry) list \<Rightarrow> nat \<Rightarrow> loc \<Rightarrow> filesystem \<Rightarrow> bool \<times> filesystem" where
  "copy_entries [] k dst t = (True, t)"
| "copy_entries ((q, Directory) # rest) k dst t =
     (case lookup t (dst @ drop k q) of
        None \<Rightarrow> copy_entries rest k dst (t @ [(dst @ drop k q, Directory)])
      | Some Directory \<Rightarrow> copy_entries rest k dst t
      | Some (RegularFile x) \<Rightarrow> (False, t))"
| "copy_entries ((q, RegularFile content) # rest) k dst t =
     (case lookup t (dst @ drop k q) of
        None \<Rightarrow> copy_entries rest k dst (t @ [(dst @ drop k q, RegularFile content)])
      | Some Directory \<Rightarrow>
          (if lookup t (dst @ drop k q @ [last q]) = None
           then copy_entries rest k dst (t @ [(dst @ drop k q @ [last q], RegularFile content)])
           else (False, t))
      | Some (RegularFile x) \<Rightarrow> (False, t))"

text \<open>
  The whole of \<^verbatim>\<open>fs::copy(from, to, copy_options::recursive)\<close>. It throws when the source
  does not exist, when a directory is to replace a regular file, and when the target of
  a new directory has no parent directory. A target inside the source directory (or the
  source itself) makes the library's recursion walk into its own output until the
  system refuses a path; the model reports that failure and leaves out the debris.
\<close>

definition copy :: "string \<Rightarrow> string \<Rightarrow> filesystem \<Rightarrow> bool \<times> filesystem" where
  "copy from to t =
     (case status from t of
        None \<Rightarrow> (False, t)
      | Some (RegularFile content) \<Rightarrow>
          (case status to t of
             Some Directory \<Rightarrow> copy_file content (resolve (path_append to (filename from))) t
           | Some (RegularFile x) \<Rightarrow> (False, t)
           | None \<Rightarrow> (if to = [] then (False, t) else copy_file content (resolve to) t))
      | Some Directory \<Rightarrow>
          (let below = sort_key (\<lambda>(q, e). length q)
                         (filter (\<lambda>(q, e). strict_prefix (resolve from) q) t)
           in if to = [] \<or> prefix (resolve from) (resolve to) then (False, t)
              else (case status to t of
                      Some (RegularFile x) \<Rightarrow> (False, t)
                    | Some Directory \<Rightarrow> copy_entries below (length (resolve from)) (resolve to) t
                    | None \<Rightarrow>
                        (if lookup t (butlast (resolve to)) = Some Directory
                         then copy_entries below (length (resolve from)) (resolve to)
                                (t @ [(resolve to, Directory)])
                         else (False, t)))))"

text \<open>
  What \<^verbatim>\<open>what()\<close> of a \<^verbatim>\<open>filesystem_error\<close> says is up to the library; the model has one
  text for each operation that throws.
\<close>

definition fs_error :: "string \<Rightarrow> string" where
  "fs_error operation = ''filesystem error: '' @ operation"

subsection \<open>The state of a run\<close>

text \<open>
  What the program reads and writes: the file system, the two streams, and the reading
  of \<^verbatim>\<open>std::chrono::steady_clock\<close> in its ticks (nanoseconds).
\<close>

record world =
  fs :: filesystem
  cout :: "string list"
  cerr :: "string list"
  steady_clock :: int

definition print :: "string list \<Rightarrow> world \<Rightarrow> world" where
  "print ls w = w\<lparr>cout := cout w @ ls\<rparr>"

definition eprint :: "string list \<Rightarrow> world \<Rightarrow> world" where
  "eprint ls w = w\<lparr>cerr := cerr w @ ls\<rparr>"

text \<open>
  How a call ends: it returns, it throws a \<^verbatim>\<open>std::exception\<close> with its \<^verbatim>\<open>what()\<close>, or it
  runs into behaviour the language leaves undefined.
\<close>

datatype 'a outcome = Returns 'a | Throws string | Undefined

subsection \<open>The configuration\<close>

text \<open>
  \<^verbatim>\<open>struct BackupConfig\<close>. \<^verbatim>\<open>maxBackups\<close> is a \<^verbatim>\<open>size_t\<close>, which holds every value
  \<^verbatim>\<open>std::stoul\<close> returns; \<^verbatim>\<open>interval\<close> is the count of a \<^verbatim>\<open>std::chrono::minutes\<close>, a
  signed integer. The field \<^verbatim>\<open>help\<close> is \<open>help_flag\<close> here.
\<close>

record BackupConfig =
  sourcePath :: string
  backupRoot :: string
  configFile :: string
  maxBackups :: nat
  interval :: int
  daemon :: bool
  instant :: bool
  verbose :: bool
  help_flag :: bool
  listBackups :: bool
  restoreBackup :: "string option"
  deleteBackup :: "string option"

definition default_config :: BackupConfig where
  "default_config =
     \<lparr>sourcePath = [], backupRoot = ''CopiedFiles'', configFile = ''paths.txt'',
      maxBackups = 10, interval = 30, daemon = False, instant = False, verbose = False,
      help_flag = False, listBackups = False, restoreBackup = None, deleteBackup = None\<rparr>"

subsection \<open>\<^verbatim>\<open>make_timestamp_folder_name\<close>\<close>

text \<open>
  \<^verbatim>\<open>struct tm\<close> as \<^verbatim>\<open>localtime_s\<close> fills it: the fields the format reads. The function reads
  the system clock and converts it to local time; the model takes the result of that
  conversion as its argument, \<open>None\<close> when \<^verbatim>\<open>localtime_s\<close> returns an error code.
  \<^verbatim>\<open>std::put_time\<close> with \<^verbatim>\<open>%Y-%m-%d_%H-%M-%S\<close> writes the year \<^verbatim>\<open>tm_year + 1900\<close> in decimal,
  the month \<^verbatim>\<open>tm_mon + 1\<close> and the other fields in two digits with a leading zero. What it
  does with a negative field is not defined; the model writes it as zero.
\<close>

record tm =
  tm_sec :: int
  tm_min :: int
  tm_hour :: int
  tm_mday :: int
  tm_mon :: int
  tm_year :: int

definition pad2 :: "int \<Rightarrow> string" where
  "pad2 i = (if i < 10 then CHR ''0'' # show_nat (nat i) else show_nat (nat i))"

definition put_time :: "tm \<Rightarrow> string" where
  "put_time t =
     show_nat (nat (tm_year t + 1900)) @ ''-'' @ pad2 (tm_mon t + 1) @ ''-'' @ pad2 (tm_mday t)
       @ ''_'' @ pad2 (tm_hour t) @ ''-'' @ pad2 (tm_min t) @ ''-'' @ pad2 (tm_sec t)"

definition make_timestamp_folder_name :: "tm option \<Rightarrow> string" where
  "make_timestamp_folder_name localtime =
     (case localtime of
        None \<Rightarrow> ''Backup_Error''
      | Some tm_buf \<Rightarrow> ''Backup_'' @ put_time tm_buf)"

subsection \<open>\<^verbatim>\<open>read_path_from_file\<close>\<close>

definition is_blank :: "char \<Rightarrow> bool" where
  "is_blank c = (c = CHR '' '' \<or> c = CHR 0x09 \<or> c = CHR 0x0D \<or> c = CHR 0x0A)"

definition trim :: "string \<Rightarrow> string" where
  "trim line = rev (dropWhile is_blank (rev (dropWhile is_blank line)))"

text \<open>
  The lines \<^verbatim>\<open>std::getline\<close> reads one after the other: the text between newlines, with
  no last line after a final newline.
\<close>

definition getlines :: "string \<Rightarrow> string list" where
  "getlines content =
     (let ls = split_on (CHR 0x0A) content in if last ls = [] then butlast ls else ls)"

fun first_path :: "string list \<Rightarrow> string option" where
  "first_path [] = None"
| "first_path (l # ls) =
     (let line = trim l in
      if line = [] then first_path ls
      else if starts_with line ''#'' \<or> starts_with line ''//'' \<or> starts_with line ''--''
      then first_path ls
      else Some line)"

text \<open>The result is \<open>Inl\<close> of the message of the \<^verbatim>\<open>runtime_error\<close> thrown, or \<open>Inr\<close> of the line.\<close>

definition read_path_from_file :: "string \<Rightarrow> filesystem \<Rightarrow> string + string" where
  "read_path_from_file txtFilePath t =
     (case status txtFilePath t of
        Some (RegularFile content) \<Rightarrow>
          (case first_path (getlines content) of
             Some line \<Rightarrow> Inr line
           | None \<Rightarrow> Inl (''No valid path found in file: '' @ txtFilePath))
      | _ \<Rightarrow> Inl (''Cannot open config file: '' @ txtFilePath))"

subsection \<open>\<^verbatim>\<open>list_backups\<close>\<close>

text \<open>
  \<^verbatim>\<open>fs::file_size\<close> is called on each backup, a directory; what it gives for a directory
  is implementation-defined. \<open>dir_size\<close> is that result: a number, or \<open>None\<close> when the
  call throws. The comparison of the sort is \<^verbatim>\<open>>\<close> on the file names.
\<close>

definition list_backups :: "nat option \<Rightarrow> string \<Rightarrow> world \<Rightarrow> unit outcome \<times> world" where
  "list_backups dir_size root w =
     (if \<not> fs_exists root (fs w)
      then (Returns (), print [''No backup directory found at: '' @ quoted root] w)
      else
        (case directory_iterator root (fs w) of
           None \<Rightarrow> (Throws (fs_error ''directory_iterator''), w)
         | Some entries \<Rightarrow>
             (let backups = filter (\<lambda>entry. snd entry = Directory
                                      \<and> starts_with (filename (fst entry)) ''Backup_'') entries
              in if backups = []
                 then (Returns (), print [''No backups found in: '' @ quoted root] w)
                 else
                   (let sorted_backups = rev (sort_key (\<lambda>b. filename (fst b)) backups);
                        w1 = print [''Available backups in '' @ quoted root @ '':''] w
                    in case dir_size of
                         None \<Rightarrow> (Throws (fs_error ''file_size''), w1)
                       | Some sz \<Rightarrow>
                           (Returns (),
                            print (map (\<lambda>backup. ''  '' @ filename (fst backup) @ '' (Size: ''
                                          @ show_nat sz @ '' bytes)'') sorted_backups) w1)))))"

subsection \<open>\<^verbatim>\<open>restore_backup\<close> and \<^verbatim>\<open>delete_backup\<close>\<close>

text \<open>Both catch every exception and return \<^verbatim>\<open>false\<close>, so both return a \<^verbatim>\<open>bool\<close>.\<close>

definition restore_backup :: "string \<Rightarrow> string \<Rightarrow> string \<Rightarrow> world \<Rightarrow> bool \<times> world" where
  "restore_backup backupName root restorePath w =
     (let backupPath = path_append root backupName in
      if \<not> fs_exists backupPath (fs w)
      then (False, eprint [''Backup not found: '' @ backupName] w)
      else
        (case (if has_parent_path restorePath
               then create_directories (parent_path restorePath) (fs w)
               else (True, fs w)) of
           (False, t1) \<Rightarrow>
             (False, eprint [''Error during restore: '' @ fs_error ''create_directories'']
                       (w\<lparr>fs := t1\<rparr>))
         | (True, t1) \<Rightarrow>
             (case (if fs_exists restorePath t1 then remove_all restorePath t1 else (True, t1)) of
                (False, t2) \<Rightarrow>
                  (False, eprint [''Error during restore: '' @ fs_error ''remove_all'']
                            (w\<lparr>fs := t2\<rparr>))
              | (True, t2) \<Rightarrow>
                  (case copy backupPath restorePath t2 of
                     (False, t3) \<Rightarrow>
                       (False, eprint [''Error during restore: '' @ fs_error ''copy'']
                                 (w\<lparr>fs := t3\<rparr>))
                   | (True, t3) \<Rightarrow>
                       (True, print [check_mark @ '' Restored backup '' @ [CHR 0x27] @ backupName
                                       @ [CHR 0x27] @ '' to: '' @ quoted restorePath]
                                (w\<lparr>fs := t3\<rparr>))))))"

definition delete_backup :: "string \<Rightarrow> string \<Rightarrow> world \<Rightarrow> bool \<times> world" where
  "delete_backup backupName root w =
     (let backupPath = path_append root backupName in
      if \<not> fs_exists backupPath (fs w)
      then (False, eprint [''Backup not found: '' @ backupName] w)
      else
        (case remove_all backupPath (fs w) of
           (False, t) \<Rightarrow>
             (False, eprint [''Error deleting backup: '' @ fs_error ''remove_all'']
                       (w\<lparr>fs := t\<rparr>))
         | (True, t) \<Rightarrow>
             (True, print [check_mark @ '' Deleted backup: '' @ backupName] (w\<lparr>fs := t\<rparr>))))"

subsection \<open>\<^verbatim>\<open>cleanup_old_backups\<close>\<close>

text \<open>
  The \<^verbatim>\<open>while\<close> loop over the vector \<^verbatim>\<open>backups\<close>. With \<^verbatim>\<open>maxBackups\<close> zero its condition
  still holds when the vector is empty, and \<^verbatim>\<open>front()\<close> of an empty vector is undefined.
  Nothing here catches what \<^verbatim>\<open>remove_all\<close> throws.
\<close>

fun cleanup_loop :: "(string \<times> entry) list \<Rightarrow> nat \<Rightarrow> bool \<Rightarrow> world \<Rightarrow> unit outcome \<times> world" where
  "cleanup_loop [] maxB verb w = (if 0 \<ge> maxB then (Undefined, w) else (Returns (), w))"
| "cleanup_loop (b # rest) maxB verb w =
     (if length (b # rest) \<ge> maxB
      then (case remove_all (fst b) (fs w) of
              (False, t) \<Rightarrow>
                (Throws (fs_error ''remove_all''),
                 (if verb then print [''Deleting old backup: '' @ quoted (filename (fst b))] w else w)
                   \<lparr>fs := t\<rparr>)
            | (True, t) \<Rightarrow>
                cleanup_loop rest maxB verb
                  ((if verb then print [''Deleting old backup: '' @ quoted (filename (fst b))] w
                    else w)\<lparr>fs := t\<rparr>))
      else (Returns (), w))"

definition cleanup_old_backups :: "string \<Rightarrow> nat \<Rightarrow> bool \<Rightarrow> world \<Rightarrow> unit outcome \<times> world" where
  "cleanup_old_backups root maxB verb w =
     (case directory_iterator root (fs w) of
        None \<Rightarrow> (Throws (fs_error ''directory_iterator''), w)
      | Some entries \<Rightarrow>
          (let backups = filter (\<lambda>entry. snd entry = Directory
                                   \<and> starts_with (filename (fst entry)) ''Backup_'') entries;
               sorted_backups = sort_key (\<lambda>b. filename (fst b)) backups
           in cleanup_loop sorted_backups maxB verb w))"

subsection \<open>\<^verbatim>\<open>perform_backup\<close>\<close>

text \<open>
  \<open>localtime\<close> is what the local-time conversion gives when the new name is made. Every
  exception is caught and turned into \<^verbatim>\<open>false\<close>.
\<close>

definition perform_backup :: "BackupConfig \<Rightarrow> tm option \<Rightarrow> world \<Rightarrow> bool outcome \<times> world" where
  "perform_backup config localtime w =
     (case (if sourcePath config \<noteq> [] then Inr (sourcePath config)
            else read_path_from_file (configFile config) (fs w)) of
        Inl what \<Rightarrow> (Returns False, eprint [''Error during backup: '' @ what] w)
      | Inr sourceDirPath \<Rightarrow>
          if \<not> fs_exists sourceDirPath (fs w) \<or> \<not> is_directory sourceDirPath (fs w)
          then (Returns False,
                eprint [''Warning: Source directory does not exist: '' @ quoted sourceDirPath] w)
          else
            (case cleanup_old_backups (backupRoot config) (maxBackups config) (verbose config) w of
               (Undefined, w1) \<Rightarrow> (Undefined, w1)
             | (Throws what, w1) \<Rightarrow> (Returns False, eprint [''Error during backup: '' @ what] w1)
             | (Returns u, w1) \<Rightarrow>
                 (let newBackupName = make_timestamp_folder_name localtime;
                      newBackupPath = path_append (backupRoot config) newBackupName;
                      w2 = (if verbose config
                            then print [''Backing up: '' @ quoted sourceDirPath @ '' -> ''
                                          @ quoted newBackupPath] w1
                            else w1)
                  in case copy sourceDirPath newBackupPath (fs w2) of
                       (False, t) \<Rightarrow>
                         (Returns False,
                          eprint [''Error during backup: '' @ fs_error ''copy''] (w2\<lparr>fs := t\<rparr>))
                     | (True, t) \<Rightarrow>
                         (Returns True,
                          print [check_mark @ '' Created backup: '' @ newBackupName]
                            (w2\<lparr>fs := t\<rparr>)))))"

subsection \<open>\<^verbatim>\<open>print_help\<close> and \<^verbatim>\<open>create_readme_file\<close>\<close>

definition help_text :: "string \<Rightarrow> string list" where
  "help_text prog =
     [''FlameUp - Command Line Backup Utility'',
      ''Usage: '' @ prog @ '' [OPTIONS]'',
      [],
      ''Options:'',
      ''  -h, --help              Show this help message'',
      ''  -p, --path <path>       Source path to backup (overrides config file)'',
      ''  -c, --config <file>     Config file path (default: paths.txt)'',
      ''  -o, --output <path>     Backup output directory (default: CopiedFiles)'',
      ''  -m, --max <number>      Maximum number of backups to keep (default: 10)'',
      ''  -i, --interval <min>    Backup interval in minutes for daemon mode (default: 30)'',
      ''  -d, --daemon            Run as background daemon (continuous backups)'',
      ''  -n, --now               Perform instant backup and exit'',
      ''  -v, --verbose           Enable verbose output'',
      ''  -l, --list              List all available backups'',
      ''  -r, --restore <name>    Restore specific backup by name'',
      ''  --restore-to <path>     Target path for restore (use with --restore)'',
      ''  --delete <name>         Delete specific backup by name'',
      [],
      ''Examples:'',
      ''  '' @ prog @ '' --now                    # Instant backup using paths.txt'',
      ''  '' @ prog @ '' --path C:'' @ [CHR 0x5C] @ ''MyFiles --now  # Instant backup of specific path'',
      ''  '' @ prog @ '' --daemon --interval 60   # Run daemon with 60min interval'',
      ''  '' @ prog @ '' --list                   # List all backups'',
      ''  '' @ prog @ '' --restore Backup_2024-01-01_12-00-00 --restore-to C:'' @ [CHR 0x5C] @ ''Restored'',
      ''  '' @ prog @ '' --delete Backup_2024-01-01_12-00-00'']"

definition print_help :: "string \<Rightarrow> world \<Rightarrow> world" where
  "print_help programName w = print (help_text programName) w"

definition readme_lines :: "string list" where
  "readme_lines =
     [''FlameUp - Command Line Arguments'',
      ''==========================================='',
      [],
      ''Overview'',
      ''--------'',
      ''A flexible command-line backup utility that supports instant backups, scheduled daemon mode, backup management, and restore operations.'',
      [],
      ''Basic Usage'',
      ''-----------'',
      ''FlameUp.exe [OPTIONS]'',
      [],
      ''Command Line Arguments'',
      ''----------------------'',
      [],
      ''Help and Information'',
      ''--------------------'',
      ''Argument            Description'',
      ''---------           ------------------------------------------------'',
      ''-h, --help          Display help message and exit'',
      ''-l, --list          List all available backups in the backup directory'',
      [],
      ''Backup Configuration'',
      ''--------------------'',
      ''Argument               Description                               Default'',
      ''---------              ----------------------------------------  ----------'',
      ''-p, --path <path>      Source path to backup (overrides config)  Uses paths.txt'',
      ''-c, --config <file>    Config file path containing source path   paths.txt'',
      ''-o, --output <path>    Backup output directory                   CopiedFiles'',
      ''-m, --max <number>     Maximum number of backups to keep         10'',
      [],
      ''Backup Operations'',
      ''-----------------'',
      ''Argument               Description'',
      ''---------              -----------------------------------------------'',
      ''-n, --now             Perform instant backup and exit'',
      ''-d, --daemon          Run as background daemon (continuous backups)'',
      ''-i, --interval <min>  Backup interval in minutes for daemon mode (default: 30)'',
      [],
      ''Backup Management'',
      ''-----------------'',
      ''Argument               Description'',
      ''---------              -----------------------------------------------'',
      ''-r, --restore <name>  Restore specific backup by name'',
      ''--restore-to <path>   Target path for restore (required with --restore)'',
      ''--delete <name>       Delete specific backup by name'',
      [],
      ''Output Control'',
      ''--------------'',
      ''Argument               Description'',
      ''---------              -----------------------------------------------'',
      ''-v, --verbose        Enable verbose output with detailed information'']"

text \<open>
  \<^verbatim>\<open>README.txt\<close> is written in the working directory unless something of that name is
  there. In the model a new file in the top directory can always be opened, so the
  warning of the source is never printed.
\<close>

definition create_readme_file :: "world \<Rightarrow> world" where
  "create_readme_file w =
     (if fs_exists ''README.txt'' (fs w) then w
      else w\<lparr>fs := fs w @ [([''README.txt''],
                  RegularFile (concat (map (\<lambda>l. l @ [CHR 0x0A]) readme_lines)))]\<rparr>)"

subsection \<open>\<^verbatim>\<open>parse_arguments\<close>\<close>

text \<open>
  \<^verbatim>\<open>std::stoul\<close> in base ten, as \<^verbatim>\<open>strtoul\<close> reads: white space, an optional sign, then
  the longest run of digits; what follows is ignored. A minus sign negates in the
  unsigned type. \<^verbatim>\<open>unsigned long\<close> has 32 bits on Windows. The result is \<open>Inl\<close> of the
  \<^verbatim>\<open>what()\<close> of the exception thrown (the texts of the Microsoft library), or \<open>Inr\<close> of the
  number.
\<close>

definition ULONG_MAX :: nat where
  "ULONG_MAX = 2 ^ 32 - 1"

definition is_space :: "char \<Rightarrow> bool" where
  "is_space c = (c = CHR '' '' \<or> (CHR 0x09 \<le> c \<and> c \<le> CHR 0x0D))"

definition is_digit :: "char \<Rightarrow> bool" where
  "is_digit c = (CHR ''0'' \<le> c \<and> c \<le> CHR ''9'')"

definition digit_val :: "char \<Rightarrow> nat" where
  "digit_val c = of_char c - 48"

definition stoul :: "string \<Rightarrow> string + nat" where
  "stoul s =
     (let s1 = dropWhile is_space s;
          signed = (s1 \<noteq> [] \<and> (hd s1 = CHR ''-'' \<or> hd s1 = CHR ''+''));
          negative = (s1 \<noteq> [] \<and> hd s1 = CHR ''-'');
          ds = takeWhile is_digit (if signed then tl s1 else s1);
          v = foldl (\<lambda>a c. 10 * a + digit_val c) 0 ds
      in if ds = [] then Inl ''invalid stoul argument''
         else if v > ULONG_MAX then Inl ''stoul argument out of range''
         else Inr (if negative \<and> v \<noteq> 0 then ULONG_MAX + 1 - v else v))"

text \<open>
  \<^verbatim>\<open>std::chrono::minutes(n)\<close> for an \<^verbatim>\<open>unsigned long\<close> \<open>n\<close>: the count of \<^verbatim>\<open>minutes\<close> is a
  32-bit \<^verbatim>\<open>int\<close> in the Microsoft library, so the conversion wraps.
\<close>

definition minutes_of_ulong :: "nat \<Rightarrow> int" where
  "minutes_of_ulong n = (if n < 2 ^ 31 then int n else int n - 2 ^ 32)"

text \<open>
  The loop over \<^verbatim>\<open>argv[1..argc-1]\<close>; an option with a value takes the next argument with
  it. The value of \<^verbatim>\<open>--restore-to\<close> goes to a local variable that is not used again. The
  result is \<open>Inl\<close> of the \<^verbatim>\<open>what()\<close> of the exception thrown, or \<open>Inr\<close> of the configuration.
\<close>

fun parse_loop :: "BackupConfig \<Rightarrow> string list \<Rightarrow> string + BackupConfig" where
  "parse_loop config [] = Inr config"
| "parse_loop config (arg # rest) =
     (if arg = ''-h'' \<or> arg = ''--help'' then parse_loop (config\<lparr>help_flag := True\<rparr>) rest
      else if arg = ''-p'' \<or> arg = ''--path'' then
        (case rest of
           [] \<Rightarrow> Inl ''--path requires a value''
         | v # rest' \<Rightarrow> parse_loop (config\<lparr>sourcePath := v\<rparr>) rest')
      else if arg = ''-c'' \<or> arg = ''--config'' then
        (case rest of
           [] \<Rightarrow> Inl ''--config requires a value''
         | v # rest' \<Rightarrow> parse_loop (config\<lparr>configFile := v\<rparr>) rest')
      else if arg = ''-o'' \<or> arg = ''--output'' then
        (case rest of
           [] \<Rightarrow> Inl ''--output requires a value''
         | v # rest' \<Rightarrow> parse_loop (config\<lparr>backupRoot := v\<rparr>) rest')
      else if arg = ''-m'' \<or> arg = ''--max'' then
        (case rest of
           [] \<Rightarrow> Inl ''--max requires a value''
         | v # rest' \<Rightarrow>
             (case stoul v of
                Inl what \<Rightarrow> Inl what
              | Inr n \<Rightarrow> parse_loop (config\<lparr>maxBackups := n\<rparr>) rest'))
      else if arg = ''-i'' \<or> arg = ''--interval'' then
        (case rest of
           [] \<Rightarrow> Inl ''--interval requires a value''
         | v # rest' \<Rightarrow>
             (case stoul v of
                Inl what \<Rightarrow> Inl what
              | Inr n \<Rightarrow> parse_loop (config\<lparr>interval := minutes_of_ulong n\<rparr>) rest'))
      else if arg = ''-d'' \<or> arg = ''--daemon'' then parse_loop (config\<lparr>daemon := True\<rparr>) rest
      else if arg = ''-n'' \<or> arg = ''--now'' then parse_loop (config\<lparr>instant := True\<rparr>) rest
      else if arg = ''-v'' \<or> arg = ''--verbose'' then parse_loop (config\<lparr>verbose := True\<rparr>) rest
      else if arg = ''-l'' \<or> arg = ''--list'' then parse_loop (config\<lparr>listBackups := True\<rparr>) rest
      else if arg = ''-r'' \<or> arg = ''--restore'' then
        (case rest of
           [] \<Rightarrow> Inl ''--restore requires a backup name''
         | v # rest' \<Rightarrow> parse_loop (config\<lparr>restoreBackup := Some v\<rparr>) rest')
      else if arg = ''--restore-to'' then
        (case rest of
           [] \<Rightarrow> Inl ''--restore-to requires a path''
         | v # rest' \<Rightarrow> parse_loop config rest')
      else if arg = ''--delete'' then
        (case rest of
           [] \<Rightarrow> Inl ''--delete requires a backup name''
         | v # rest' \<Rightarrow> parse_loop (config\<lparr>deleteBackup := Some v\<rparr>) rest')
      else Inl (''Unknown argument: '' @ arg))"

definition parse_arguments :: "string list \<Rightarrow> string + BackupConfig" where
  "parse_arguments args = parse_loop default_config args"

subsection \<open>The daemon loop of \<^verbatim>\<open>main\<close>\<close>

text \<open>
  One pass of the \<^verbatim>\<open>while (true)\<close> body. The steady clock is read at the start and after
  the backup; between the two readings \<open>elapsed\<close> ticks pass, given from outside with the
  result of the local-time conversion of this pass. \<^verbatim>\<open>sleep_until\<close> returns at the instant
  it is given. \<^verbatim>\<open>startTime + config.interval\<close> is computed in 64-bit ticks; a signed
  overflow there is undefined.
\<close>

record cycle_input =
  local_time :: "tm option"
  elapsed :: nat

definition ticks_per_minute :: int where
  "ticks_per_minute = 60 * 10 ^ 9"

definition i64 :: "int \<Rightarrow> bool" where
  "i64 x = (- (2 ^ 63) \<le> x \<and> x < 2 ^ 63)"

definition daemon_cycle :: "BackupConfig \<Rightarrow> cycle_input \<Rightarrow> world \<Rightarrow> unit outcome \<times> world" where
  "daemon_cycle config inp w =
     (let startTime = steady_clock w;
          w1 = (if verbose config then print [[], ''--- Starting backup cycle ---''] w else w)
      in case perform_backup config (local_time inp) w1 of
           (Undefined, w2) \<Rightarrow> (Undefined, w2)
         | (Throws what, w2) \<Rightarrow> (Throws what, w2)
         | (Returns success, w2) \<Rightarrow>
             (let w3 = w2\<lparr>steady_clock := steady_clock w2 + int (elapsed inp)\<rparr>;
                  w4 = (if success
                        then (if verbose config then print [''Backup completed successfully.''] w3
                              else w3)
                        else print [''Backup failed, will retry in '' @ show_int (interval config)
                                      @ '' minutes.''] w3);
                  nextBackup = startTime + interval config * ticks_per_minute;
                  now = steady_clock w4
              in if \<not> i64 (interval config * ticks_per_minute) \<or> \<not> i64 nextBackup
                 then (Undefined, w4)
                 else if nextBackup > now
                 then (if \<not> i64 (nextBackup - now) then (Undefined, w4)
                       else (Returns (),
                             (if verbose config
                              then print [''Next backup in ''
                                            @ show_int ((nextBackup - now) div ticks_per_minute)
                                            @ '' minutes...''] w4
                              else w4)\<lparr>steady_clock := nextBackup\<rparr>))
                 else (Returns (), w4)))"

text \<open>
  How \<^verbatim>\<open>main\<close> ends: with an exit code, not at all within the passes looked at, or in
  undefined behaviour.
\<close>

datatype main_result = Exit int | Running | Crash

fun daemon_loop :: "BackupConfig \<Rightarrow> cycle_input list \<Rightarrow> world \<Rightarrow> main_result \<times> world" where
  "daemon_loop config [] w = (Running, w)"
| "daemon_loop config (inp # inps) w =
     (case daemon_cycle config inp w of
        (Returns u, w') \<Rightarrow> daemon_loop config inps w'
      | (Throws what, w') \<Rightarrow> (Exit 1, eprint [''Error: '' @ what] w')
      | (Undefined, w') \<Rightarrow> (Crash, w'))"

subsection \<open>\<^verbatim>\<open>main\<close>\<close>

text \<open>
  What a run takes from outside: what \<^verbatim>\<open>fs::file_size\<close> gives for a directory, what the
  local-time conversion gives in an instant backup, and the passes of the daemon loop
  that are looked at.
\<close>

record environment =
  dir_size :: "nat option"
  localtime_now :: "tm option"
  cycles :: "cycle_input list"

text \<open>The second scan of \<^verbatim>\<open>argv\<close> in \<^verbatim>\<open>main\<close>, for the value after \<^verbatim>\<open>--restore-to\<close>.\<close>

fun find_restore_to :: "string list \<Rightarrow> string" where
  "find_restore_to [] = []"
| "find_restore_to (a # rest) =
     (if a = ''--restore-to'' \<and> rest \<noteq> [] then hd rest else find_restore_to rest)"

text \<open>The operations of \<^verbatim>\<open>main\<close>, from "Handle list operation" on.\<close>

definition main_operation ::
  "environment \<Rightarrow> string \<Rightarrow> string list \<Rightarrow> BackupConfig \<Rightarrow> world \<Rightarrow> main_result \<times> world" where
  "main_operation env prog args config w =
     (if listBackups config then
        (case list_backups (dir_size env) (backupRoot config) w of
           (Returns u, w') \<Rightarrow> (Exit 0, w')
         | (Throws what, w') \<Rightarrow> (Exit 1, eprint [''Error: '' @ what] w')
         | (Undefined, w') \<Rightarrow> (Crash, w'))
      else
        (case restoreBackup config of
           Some name \<Rightarrow>
             (let restoreTarget = find_restore_to args in
              if restoreTarget = []
              then (Exit 1, eprint [''Error: --restore-to <path> is required when using --restore''] w)
              else (case restore_backup name (backupRoot config) restoreTarget w of
                      (ok, w') \<Rightarrow> (Exit (if ok then 0 else 1), w')))
         | None \<Rightarrow>
             (case deleteBackup config of
                Some name \<Rightarrow>
                  (case delete_backup name (backupRoot config) w of
                     (ok, w') \<Rightarrow> (Exit (if ok then 0 else 1), w'))
              | None \<Rightarrow>
                  if instant config then
                    (case perform_backup config (localtime_now env)
                            (if verbose config then print [''Performing instant backup...''] w else w) of
                       (Returns ok, w') \<Rightarrow> (Exit (if ok then 0 else 1), w')
                     | (Throws what, w') \<Rightarrow> (Exit 1, eprint [''Error: '' @ what] w')
                     | (Undefined, w') \<Rightarrow> (Crash, w'))
                  else if daemon config then
                    daemon_loop config (cycles env)
                      (print [''Starting backup daemon...'',
                              ''Backup interval: '' @ show_int (interval config) @ '' minutes'',
                              ''Max backups: '' @ show_nat (maxBackups config),
                              ''Backup directory: '' @ quoted (backupRoot config),
                              ''Press Ctrl+C to stop...'', []] w)
                  else (Exit 1, print_help prog w))))"

text \<open>
  \<^verbatim>\<open>main\<close>, with \<^verbatim>\<open>argv[0]\<close> as \<open>prog\<close> and the other arguments as \<open>args\<close>. Its \<^verbatim>\<open>catch\<close>
  turns every exception into the exit code 1.
\<close>

definition main :: "environment \<Rightarrow> string \<Rightarrow> string list \<Rightarrow> world \<Rightarrow> main_result \<times> world" where
  "main env prog args w =
     (let w0 = create_readme_file w in
      case parse_arguments args of
        Inl what \<Rightarrow> (Exit 1, eprint [''Error: '' @ what] w0)
      | Inr config \<Rightarrow>
          if help_flag config then (Exit 0, print_help prog w0)
          else if \<not> listBackups config \<and> \<not> fs_exists (backupRoot config) (fs w0) then
            (case create_directories (backupRoot config) (fs w0) of
               (False, t) \<Rightarrow>
                 (Exit 1, eprint [''Error: '' @ fs_error ''create_directories''] (w0\<lparr>fs := t\<rparr>))
             | (True, t) \<Rightarrow>
                 main_operation env prog args config
                   (if verbose config
                    then print [''Created backup directory: '' @ quoted (backupRoot config)]
                           (w0\<lparr>fs := t\<rparr>)
                    else w0\<lparr>fs := t\<rparr>))
          else main_operation env prog args config w0)"

section \<open>The notions of the properties\<close>

text \<open>
  The catalog of a backup root: the entries that \<^verbatim>\<open>list_backups\<close> and
  \<^verbatim>\<open>cleanup_old_backups\<close> collect from the directory, in the order of the directory.
\<close>

definition snapshots :: "string \<Rightarrow> filesystem \<Rightarrow> (string \<times> entry) list" where
  "snapshots root t =
     (case directory_iterator root t of
        None \<Rightarrow> []
      | Some entries \<Rightarrow>
          filter (\<lambda>entry. snd entry = Directory \<and> starts_with (filename (fst entry)) ''Backup_'')
            entries)"

text \<open>Every name in the tree is a name that a directory can hold.\<close>

definition valid_fs :: "filesystem \<Rightarrow> bool" where
  "valid_fs t = list_all (\<lambda>(q, e). list_all valid_name q) t"


text \<open>
  A sequence of create operations, one for each result of the local-time conversion,
  all of them successful: the state after the last one, and \<open>None\<close> when one of them
  does not return \<^verbatim>\<open>true\<close>.
\<close>

fun creates :: "BackupConfig \<Rightarrow> tm option list \<Rightarrow> world \<Rightarrow> world option" where
  "creates config [] w = Some w"
| "creates config (localtime # rest) w =
     (case perform_backup config localtime w of
        (Returns True, w') \<Rightarrow> creates config rest w'
      | _ \<Rightarrow> None)"

text \<open>
  A broken-down local time as \<^verbatim>\<open>localtime_s\<close> delivers it, with a year of four digits,
  and the order of two of them in time, to the second.
\<close>

definition tm_valid :: "tm \<Rightarrow> bool" where
  "tm_valid t =
     (0 \<le> tm_sec t \<and> tm_sec t \<le> 60 \<and> 0 \<le> tm_min t \<and> tm_min t \<le> 59
      \<and> 0 \<le> tm_hour t \<and> tm_hour t \<le> 23 \<and> 1 \<le> tm_mday t \<and> tm_mday t \<le> 31
      \<and> 0 \<le> tm_mon t \<and> tm_mon t \<le> 11
      \<and> 1000 \<le> tm_year t + 1900 \<and> tm_year t + 1900 \<le> 9999)"

definition tm_before :: "tm \<Rightarrow> tm \<Rightarrow> bool" where
  "tm_before a b =
     (tm_year a < tm_year b \<or> tm_year a = tm_year b \<and>
       (tm_mon a < tm_mon b \<or> tm_mon a = tm_mon b \<and>
         (tm_mday a < tm_mday b \<or> tm_mday a = tm_mday b \<and>
           (tm_hour a < tm_hour b \<or> tm_hour a = tm_hour b \<and>
             (tm_min a < tm_min b \<or> tm_min a = tm_min b \<and> tm_sec a < tm_sec b)))))"

text \<open>The decimal digits of a number in a fixed width, with leading zeros.\<close>

fun digits :: "nat \<Rightarrow> nat \<Rightarrow> string" where
  "digits 0 n = []"
| "digits (Suc k) n = digits k (n div 10) @ [digit_char (n mod 10)]"

subsection \<open>Example values\<close>

definition example_tree :: filesystem where
  "example_tree =
     [([''src''], Directory), ([''src'', ''a.txt''], RegularFile ''hello''),
      ([''CopiedFiles''], Directory)]"

definition example_time :: tm where
  "example_time =
     \<lparr>tm_sec = 5, tm_min = 4, tm_hour = 3, tm_mday = 2, tm_mon = 0, tm_year = 124\<rparr>"

definition start_world :: "filesystem \<Rightarrow> world" where
  "start_world t = \<lparr>fs = t, cout = [], cerr = [], steady_clock = 0\<rparr>"

definition example_env :: environment where
  "example_env = \<lparr>dir_size = Some 0, localtime_now = Some example_time, cycles = []\<rparr>"

definition three_snapshots :: filesystem where
  "three_snapshots =
     [([''CopiedFiles''], Directory),
      ([''CopiedFiles'', ''Backup_2024-01-02_00-00-00''], Directory),
      ([''CopiedFiles'', ''Backup_2024-01-03_00-00-00''], Directory),
      ([''CopiedFiles'', ''Backup_2024-01-01_00-00-00''], Directory),
      ([''CopiedFiles'', ''Backup_2024-01-01_00-00-00'', ''a.txt''], RegularFile ''old'')]"

definition stray_example :: filesystem where
  "stray_example =
     [([''CopiedFiles''], Directory),
      ([''CopiedFiles'', ''Backup_notes.txt''], RegularFile ''a file''),
      ([''CopiedFiles'', ''misc''], Directory),
      ([''CopiedFiles'', ''Backup_2024-01-01_00-00-00''], Directory)]"

definition ready_tree :: filesystem where
  "ready_tree =
     [([''README.txt''], RegularFile ''readme''), ([''src''], Directory),
      ([''src'', ''a.txt''], RegularFile ''hello''), ([''CopiedFiles''], Directory)]"

definition restore_example :: filesystem where
  "restore_example =
     [([''README.txt''], RegularFile ''readme''), ([''CopiedFiles''], Directory),
      ([''out''], RegularFile ''precious'')]"

section \<open>Paths and names\<close>

lemmas path_defs = resolve_def components_def norm_step_def path_append_def has_root_directory_def
  filename_def parent_path_def has_parent_path_def
lemmas fs_defs = lookup_def status_def fs_exists_def is_directory_def directory_iterator_def
  erase_def remove_refused_def remove_all_def create_directories_def copy_file_def copy_def
lemmas io_defs = print_def eprint_def

lemma split_on_not_Nil: "split_on d s \<noteq> []"
  by (induction s) (auto split: list.splits)

lemma split_on_no_delim: "d \<notin> set s \<Longrightarrow> split_on d s = [s]"
  by (induction s) auto

lemma split_on_append: "split_on d (a @ d # b) = split_on d a @ split_on d b"
proof (induction a)
  case Nil
  show ?case by simp
next
  case (Cons c a)
  obtain f fs where "split_on d a = f # fs"
    using split_on_not_Nil [of d a] by (cases "split_on d a") auto
  with Cons show ?case by simp
qed

lemma split_on_delim_free: "c \<in> set (split_on d s) \<Longrightarrow> d \<notin> set c"
proof (induction s arbitrary: c)
  case Nil
  then show ?case by simp
next
  case (Cons x s)
  then show ?case
    by (cases "split_on d s") (auto split: if_splits)
qed

lemma norm_step_valid:
  "list_all valid_name acc \<Longrightarrow> CHR ''/'' \<notin> set c \<Longrightarrow> list_all valid_name (norm_step acc c)"
  by (auto simp: norm_step_def valid_name_def list_all_iff dest: in_set_butlastD)

lemma foldl_norm_step_valid:
  "list_all valid_name acc \<Longrightarrow> \<forall>c\<in>set cs. CHR ''/'' \<notin> set c
     \<Longrightarrow> list_all valid_name (foldl norm_step acc cs)"
  by (induction cs arbitrary: acc) (auto simp: norm_step_valid)

lemma resolve_valid: "list_all valid_name (resolve s)"
  unfolding resolve_def components_def
  by (rule foldl_norm_step_valid) (auto dest: split_on_delim_free)

lemma components_snoc:
  assumes "valid_name n"
  shows "\<exists>cs. components (path_append root n) = cs @ [n] \<and> foldl norm_step [] cs = resolve root"
proof -
  from assms have n: "CHR ''/'' \<notin> set n" "n \<noteq> []" by (auto simp: valid_name_def)
  then have nr: "\<not> has_root_directory n"
    by (cases n) (auto simp: has_root_directory_def)
  have sn: "split_on CHR ''/'' n = [n]" using n by (simp add: split_on_no_delim)
  show ?thesis
  proof (cases "root = []")
    case True
    then show ?thesis using nr sn
      by (auto simp: path_append_def components_def resolve_def norm_step_def intro!: exI [of _ "[]"])
  next
    case False
    show ?thesis
    proof (cases "last root = CHR ''/''")
      case True
      with False obtain r where r: "root = r @ ''/''"
        by (metis append_butlast_last_id)
      have "components (path_append root n) = split_on CHR ''/'' r @ [n]"
        using nr False True r sn split_on_append [of "CHR ''/''" r n]
        by (simp add: path_append_def components_def)
      moreover have "resolve root = foldl norm_step [] (split_on CHR ''/'' r)"
        using r split_on_append [of "CHR ''/''" r "[]"]
        by (simp add: resolve_def components_def norm_step_def)
      ultimately show ?thesis by auto
    next
      case l: False
      have "components (path_append root n) = split_on CHR ''/'' root @ [n]"
        using nr False l sn split_on_append [of "CHR ''/''" root n]
        by (simp add: path_append_def components_def)
      then show ?thesis by (auto simp: resolve_def components_def)
    qed
  qed
qed

lemma resolve_path_append: "valid_name n \<Longrightarrow> resolve (path_append root n) = resolve root @ [n]"
proof -
  assume v: "valid_name n"
  from components_snoc [OF v, of root] obtain cs where
    cs: "components (path_append root n) = cs @ [n]" "foldl norm_step [] cs = resolve root"
    by blast
  have "norm_step (resolve root) n = resolve root @ [n]"
    using v by (simp add: norm_step_def valid_name_def)
  with cs show ?thesis by (simp add: resolve_def)
qed

lemma filename_path_append: "valid_name n \<Longrightarrow> filename (path_append root n) = n"
  using components_snoc [of n root] by (auto simp: filename_def)

lemma path_append_inj:
  assumes "valid_name a" "valid_name b"
  shows "path_append root a = path_append root b \<longleftrightarrow> a = b"
proof
  assume "path_append root a = path_append root b"
  then have "filename (path_append root a) = filename (path_append root b)" by (rule arg_cong)
  then show "a = b" by (simp only: filename_path_append [OF assms(1)] filename_path_append [OF assms(2)])
next
  assume "a = b"
  then show "path_append root a = path_append root b" by (rule arg_cong)
qed

lemma path_append_not_Nil: "valid_name n \<Longrightarrow> path_append root n \<noteq> []"
  by (auto simp: path_append_def valid_name_def)

lemma digit_cases:
  "d < 10 \<Longrightarrow> d = 0 \<or> d = 1 \<or> d = 2 \<or> d = 3 \<or> d = 4 \<or> d = 5 \<or> d = 6 \<or> d = 7 \<or> d = 8 \<or> d = (9::nat)"
  by arith

lemma of_char_digit_char: "d < 10 \<Longrightarrow> of_char (digit_char d) = 48 + d"
  using digit_cases [of d] by (auto simp: digit_char_def)

lemma digit_char_not_slash: "d < 10 \<Longrightarrow> digit_char d \<noteq> CHR ''/''"
proof
  assume d: "d < 10" and "digit_char d = CHR ''/''"
  then have "of_char (digit_char d) = (of_char CHR ''/'' :: nat)" by simp
  with d show False by (simp add: of_char_digit_char)
qed

lemma show_nat_no_slash: "CHR ''/'' \<notin> set (show_nat n)"
proof (induction n rule: show_nat.induct)
  case (1 n)
  then show ?case
    using digit_char_not_slash [of n] digit_char_not_slash [of "n mod 10"]
    by (subst show_nat.simps) auto
qed

lemma pad2_no_slash: "CHR ''/'' \<notin> set (pad2 i)"
  by (simp add: pad2_def show_nat_no_slash)

lemma put_time_no_slash: "CHR ''/'' \<notin> set (put_time t)"
  unfolding put_time_def using show_nat_no_slash pad2_no_slash by simp

lemma name_valid: "valid_name (make_timestamp_folder_name localtime)"
proof (cases localtime)
  case None
  then show ?thesis by (simp add: make_timestamp_folder_name_def valid_name_def)
next
  case (Some t)
  then show ?thesis
    using put_time_no_slash [of t] by (simp add: make_timestamp_folder_name_def valid_name_def)
qed

lemma resolve_last_component:
  assumes "filename s \<noteq> []" and "filename s \<noteq> ''.''" and "filename s \<noteq> ''..''"
  shows "resolve s = foldl norm_step [] (butlast (components s)) @ [filename s]"
proof -
  have "components s = butlast (components s) @ [filename s]"
    using split_on_not_Nil [of "CHR ''/''" s] by (simp add: filename_def components_def)
  then have "resolve s = norm_step (foldl norm_step [] (butlast (components s))) (filename s)"
    unfolding resolve_def by (metis foldl_Cons foldl_Nil foldl_append)
  with assms show ?thesis by (simp add: norm_step_def)
qed

lemma remove_all_plain:
  assumes "filename s \<noteq> []" and "filename s \<noteq> ''.''" and "filename s \<noteq> ''..''"
  shows "remove_all s t = (True, erase s t)"
  using resolve_last_component [OF assms] assms by (simp add: remove_all_def remove_refused_def)

lemma remove_all_snapshot:
  assumes "starts_with (filename s) ''Backup_''"
  shows "remove_all s t = (True, erase s t)"
proof (rule remove_all_plain)
  from assms obtain r where "filename s = ''Backup_'' @ r"
    by (auto simp: starts_with_def prefix_def)
  then show "filename s \<noteq> []" "filename s \<noteq> ''.''" "filename s \<noteq> ''..''" by simp_all
qed

section \<open>Retention\<close>

lemma cleanup_loop_closed:
  "1 \<le> m \<Longrightarrow> \<forall>b\<in>set bs. starts_with (filename (fst b)) ''Backup_'' \<Longrightarrow>
   cleanup_loop bs m verb w =
     (Returns (),
      w\<lparr>fs := foldl (\<lambda>t b. erase (fst b) t) (fs w) (take (Suc (length bs) - m) bs),
        cout := cout w @ (if verb
                          then map (\<lambda>b. ''Deleting old backup: '' @ quoted (filename (fst b)))
                                 (take (Suc (length bs) - m) bs)
                          else [])\<rparr>)"
proof (induction bs arbitrary: w)
  case Nil
  then show ?case by simp
next
  case (Cons b bs)
  show ?case
  proof (cases "m \<le> Suc (length bs)")
    case True
    define w1 where "w1 = (if verb then print [''Deleting old backup: '' @ quoted (filename (fst b))] w
                           else w)\<lparr>fs := erase (fst b) (fs w)\<rparr>"
    have "remove_all (fst b) (fs w) = (True, erase (fst b) (fs w))"
      using Cons.prems(2) by (simp add: remove_all_snapshot)
    then have step: "cleanup_loop (b # bs) m verb w = cleanup_loop bs m verb w1"
      using True by (simp add: w1_def)
    have tk: "take (Suc (length (b # bs)) - m) (b # bs) = b # take (Suc (length bs) - m) bs"
      using True by (simp add: Suc_diff_le)
    have ih: "cleanup_loop bs m verb w1 = (Returns (),
      w1\<lparr>fs := foldl (\<lambda>t b. erase (fst b) t) (fs w1) (take (Suc (length bs) - m) bs),
        cout := cout w1 @ (if verb
                          then map (\<lambda>b. ''Deleting old backup: '' @ quoted (filename (fst b)))
                                 (take (Suc (length bs) - m) bs)
                          else [])\<rparr>)"
      using Cons.prems by (intro Cons.IH) simp_all
    show ?thesis
      apply (simp only: step tk ih)
      apply (simp add: w1_def print_def)
      done
  next
    case False
    then show ?thesis by simp
  qed
qed

lemma map_of_filter_key:
  "map_of (filter (\<lambda>(q, e). P q) t) k = (if P k then map_of t k else None)"
  by (induction t) auto

lemma valid_fs_erase: "valid_fs t \<Longrightarrow> valid_fs (erase s t)"
  by (auto simp: valid_fs_def erase_def list_all_iff)

lemma child_eq:
  assumes "q \<noteq> []" "butlast q = R"
  shows "prefix (R @ [n]) q \<longleftrightarrow> last q = n"
proof -
  from assms have q: "q = R @ [last q]" by (metis append_butlast_last_id)
  show ?thesis
  proof
    assume "prefix (R @ [n]) q"
    then have "prefix (R @ [n]) (R @ [last q])" using q by simp
    then show "last q = n" by simp
  next
    assume "last q = n"
    with q show "prefix (R @ [n]) q" by simp
  qed
qed

lemma filter_swap: "filter P (filter Q xs) = filter Q (filter P xs)"
  by (induction xs) auto

lemma snapshots_erase:
  assumes v: "valid_fs t" and n: "valid_name n"
  shows "snapshots root (erase (path_append root n) t)
           = filter (\<lambda>x. fst x \<noteq> path_append root n) (snapshots root t)"
proof -
  let ?R = "resolve root"
  let ?P = "\<lambda>q. \<not> prefix (?R @ [n]) q"
  have ra: "erase (path_append root n) t = filter (\<lambda>(q, e). ?P q) t"
    using n by (simp add: erase_def path_append_not_Nil resolve_path_append)
  have dir: "is_directory root (filter (\<lambda>(q, e). ?P q) t) = is_directory root t"
    by (simp add: is_directory_def status_def lookup_def map_of_filter_key)
  have ch: "map (\<lambda>(q, e). (path_append root (last q), e))
              (filter (\<lambda>(q, e). q \<noteq> [] \<and> butlast q = ?R) (filter (\<lambda>(q, e). ?P q) t))
          = filter (\<lambda>x. fst x \<noteq> path_append root n)
              (map (\<lambda>(q, e). (path_append root (last q), e))
                 (filter (\<lambda>(q, e). q \<noteq> [] \<and> butlast q = ?R) t))"
    using v
  proof (induction t)
    case Nil
    show ?case by simp
  next
    case (Cons x t)
    obtain q e where x: "x = (q, e)" by (cases x)
    from Cons.prems have vt: "valid_fs t" and vq: "list_all valid_name q"
      by (auto simp: valid_fs_def x)
    show ?case
    proof (cases "q \<noteq> [] \<and> butlast q = ?R")
      case True
      then have "valid_name (last q)" using vq by (auto simp: list_all_iff)
      then have inj: "path_append root (last q) = path_append root n \<longleftrightarrow> last q = n"
        using n by (rule path_append_inj)
      show ?thesis using True Cons.IH [OF vt] child_eq [of q ?R n] inj
        by (simp add: x)
    next
      case False
      then show ?thesis using Cons.IH [OF vt] by (auto simp: x)
    qed
  qed
  show ?thesis
  proof (cases "is_directory root t")
    case True
    then show ?thesis
      unfolding ra snapshots_def directory_iterator_def dir
      by (simp add: ch filter_swap [of "\<lambda>x. fst x \<noteq> path_append root n"] del: filter_filter)
  next
    case False
    then show ?thesis
      unfolding ra snapshots_def directory_iterator_def dir by simp
  qed
qed

lemma valid_fs_foldl_remove:
  "valid_fs t \<Longrightarrow> valid_fs (foldl (\<lambda>t b. erase (fst b) t) t bs)"
  by (induction bs arbitrary: t) (auto simp: valid_fs_erase)

lemma snapshots_foldl_remove:
  assumes "valid_fs t" and "\<forall>b\<in>set bs. \<exists>n. valid_name n \<and> fst b = path_append root n"
  shows "snapshots root (foldl (\<lambda>t b. erase (fst b) t) t bs)
           = filter (\<lambda>x. fst x \<notin> fst ` set bs) (snapshots root t)"
  using assms
proof (induction bs arbitrary: t)
  case Nil
  show ?case by simp
next
  case (Cons b bs)
  from Cons.prems obtain n where n: "valid_name n" "fst b = path_append root n" by auto
  have "snapshots root (foldl (\<lambda>t b. erase (fst b) t) (erase (fst b) t) bs)
          = filter (\<lambda>x. fst x \<notin> fst ` set bs) (snapshots root (erase (fst b) t))"
    using Cons.prems by (intro Cons.IH) (auto simp: valid_fs_erase)
  also have "\<dots> = filter (\<lambda>x. fst x \<notin> fst ` set bs)
                      (filter (\<lambda>x. fst x \<noteq> fst b) (snapshots root t))"
    using snapshots_erase [OF Cons.prems(1) n(1), of root] n(2) by simp
  finally show ?case by (auto simp: filter_filter intro!: filter_cong)
qed

lemma snapshots_named:
  assumes "valid_fs t" "b \<in> set (snapshots root t)"
  shows "\<exists>n. valid_name n \<and> fst b = path_append root n"
proof -
  from assms(2) obtain q e where qe: "(q, e) \<in> set t" "q \<noteq> []" "b = (path_append root (last q), e)"
    by (auto simp: snapshots_def directory_iterator_def split: if_splits)
  with assms(1) have "valid_name (last q)"
    by (auto simp: valid_fs_def list_all_iff)
  with qe show ?thesis by auto
qed

lemma length_filter_mset_eq:
  assumes "mset xs = mset ys"
  shows "length (filter P xs) = length (filter P ys)"
proof -
  have "mset (filter P xs) = mset (filter P ys)"
    using assms by simp
  then show ?thesis by (rule mset_eq_length)
qed

lemma length_filter_take_drop:
  assumes "mset xs = mset ys"
  shows "length (filter (\<lambda>x. fst x \<notin> fst ` set (take k ys)) xs) \<le> length ys - k"
proof -
  define P where "P = (\<lambda>x::'a \<times> 'b. fst x \<notin> fst ` set (take k ys))"
  have a: "length (filter P xs) = length (filter P ys)"
    using assms by (rule length_filter_mset_eq)
  have "filter P (take k ys @ drop k ys) = filter P (take k ys) @ filter P (drop k ys)"
    by (rule filter_append)
  then have b: "filter P ys = filter P (take k ys) @ filter P (drop k ys)"
    by simp
  have c: "filter P (take k ys) = []"
    by (auto simp: filter_empty_conv P_def)
  have "length (filter P (drop k ys)) \<le> length (drop k ys)"
    by (rule length_filter_le)
  then have "length (filter P xs) \<le> length ys - k"
    by (simp add: a b c)
  then show ?thesis by (simp add: P_def)
qed

lemma is_directory_foldl_remove:
  "is_directory root t \<Longrightarrow> \<forall>b\<in>set bs. \<exists>n. valid_name n \<and> fst b = path_append root n
     \<Longrightarrow> is_directory root (foldl (\<lambda>t b. erase (fst b) t) t bs)"
proof (induction bs arbitrary: t)
  case Nil
  then show ?case by simp
next
  case (Cons b bs)
  from Cons.prems obtain n where n: "valid_name n" "fst b = path_append root n" by auto
  have "is_directory root (erase (fst b) t)"
    using Cons.prems(1) n
    by (auto simp: erase_def path_append_not_Nil resolve_path_append is_directory_def
        status_def lookup_def map_of_filter_key split: if_splits)
  then show ?case using Cons by simp
qed

lemma cleanup_old_backups_closed:
  assumes m: "1 \<le> m" and dir: "is_directory root (fs w)"
  shows "cleanup_old_backups root m verb w =
     (Returns (),
      w\<lparr>fs := foldl (\<lambda>t b. erase (fst b) t) (fs w)
               (take (Suc (length (snapshots root (fs w))) - m)
                  (sort_key (\<lambda>b. filename (fst b)) (snapshots root (fs w)))),
        cout := cout w @ (if verb
                          then map (\<lambda>b. ''Deleting old backup: '' @ quoted (filename (fst b)))
                                 (take (Suc (length (snapshots root (fs w))) - m)
                                    (sort_key (\<lambda>b. filename (fst b)) (snapshots root (fs w))))
                          else [])\<rparr>)"
proof -
  from dir obtain entries where d: "directory_iterator root (fs w) = Some entries"
    by (simp add: directory_iterator_def)
  have S: "filter (\<lambda>entry. snd entry = Directory \<and> starts_with (filename (fst entry)) ''Backup_'') entries
             = snapshots root (fs w)"
    using d by (simp add: snapshots_def)
  have "cleanup_old_backups root m verb w
          = cleanup_loop (sort_key (\<lambda>b. filename (fst b)) (snapshots root (fs w))) m verb w"
    by (simp add: cleanup_old_backups_def d S)
  also have "\<dots> = (Returns (),
      w\<lparr>fs := foldl (\<lambda>t b. erase (fst b) t) (fs w)
               (take (Suc (length (sort_key (\<lambda>b. filename (fst b)) (snapshots root (fs w)))) - m)
                  (sort_key (\<lambda>b. filename (fst b)) (snapshots root (fs w)))),
        cout := cout w @ (if verb
                          then map (\<lambda>b. ''Deleting old backup: '' @ quoted (filename (fst b)))
                                 (take (Suc (length (sort_key (\<lambda>b. filename (fst b))
                                                       (snapshots root (fs w)))) - m)
                                    (sort_key (\<lambda>b. filename (fst b)) (snapshots root (fs w))))
                          else [])\<rparr>)"
    using m by (intro cleanup_loop_closed) (auto simp: snapshots_def split: option.splits)
  finally show ?thesis by simp
qed

lemma cleanup_count:
  assumes m: "1 \<le> m" and v: "valid_fs (fs w)" and dir: "is_directory root (fs w)"
    and c: "cleanup_old_backups root m verb w = (r, w1)"
  shows "r = Returns () \<and> is_directory root (fs w1) \<and> valid_fs (fs w1)
           \<and> length (snapshots root (fs w1)) \<le> m - 1"
proof -
  define sorted where "sorted = sort_key (\<lambda>b. filename (fst b)) (snapshots root (fs w))"
  define k where "k = Suc (length (snapshots root (fs w))) - m"
  have r: "r = Returns ()"
    and w1: "fs w1 = foldl (\<lambda>t b. erase (fst b) t) (fs w) (take k sorted)"
    using c unfolding cleanup_old_backups_closed [OF m dir] sorted_def k_def by auto
  have named: "\<forall>b\<in>set (take k sorted). \<exists>n. valid_name n \<and> fst b = path_append root n"
  proof
    fix b assume "b \<in> set (take k sorted)"
    then have "b \<in> set (snapshots root (fs w))"
      unfolding sorted_def by (auto dest: in_set_takeD)
    then show "\<exists>n. valid_name n \<and> fst b = path_append root n"
      by (rule snapshots_named [OF v])
  qed
  have snap: "snapshots root (fs w1)
                = filter (\<lambda>x. fst x \<notin> fst ` set (take k sorted)) (snapshots root (fs w))"
    unfolding w1 by (rule snapshots_foldl_remove [OF v named])
  have "mset (snapshots root (fs w)) = mset sorted"
    unfolding sorted_def by simp
  then have "length (snapshots root (fs w1)) \<le> length sorted - k"
    unfolding snap by (rule length_filter_take_drop)
  moreover have "length sorted = length (snapshots root (fs w))"
    unfolding sorted_def by simp
  ultimately have len: "length (snapshots root (fs w1)) \<le> m - 1"
    using m unfolding k_def by arith
  have d1: "is_directory root (fs w1)"
    unfolding w1 by (rule is_directory_foldl_remove [OF dir named])
  have v1: "valid_fs (fs w1)"
    unfolding w1 by (rule valid_fs_foldl_remove [OF v])
  show ?thesis using r d1 v1 len by blast
qed

lemma copy_entries_extends:
  assumes "copy_entries es k dst t = (ok, t')"
    and "\<forall>(q, e)\<in>set es. k < length q \<and> list_all valid_name q"
    and "list_all valid_name dst"
  shows "\<exists>extra. t' = t @ extra \<and> (\<forall>(p, e)\<in>set extra. length dst < length p \<and> list_all valid_name p)"
  using assms
proof (induction es k dst t arbitrary: ok t' rule: copy_entries.induct)
  case (1 k dst t)
  then show ?case by simp
next
  case (2 q rest k dst t)
  from "2.prems"(2) have q: "k < length q" "list_all valid_name q" by auto
  then have new: "length dst < length (dst @ drop k q)" "list_all valid_name (dst @ drop k q)"
    using "2.prems"(3) by (auto simp: list_all_iff dest: in_set_dropD)
  show ?case
  proof (cases "lookup t (dst @ drop k q)")
    case None
    with "2.prems" have "copy_entries rest k dst (t @ [(dst @ drop k q, Directory)]) = (ok, t')"
      by simp
    from "2.IH"(1) [OF None this] "2.prems"(2,3)
    obtain extra where "t' = (t @ [(dst @ drop k q, Directory)]) @ extra"
      "\<forall>(p, e)\<in>set extra. length dst < length p \<and> list_all valid_name p"
      by auto
    then show ?thesis using new
      by (intro exI [of _ "(dst @ drop k q, Directory) # extra"]) auto
  next
    case (Some a)
    show ?thesis
    proof (cases a)
      case Directory
      with Some "2.prems" have "copy_entries rest k dst t = (ok, t')" by simp
      from "2.IH"(2) [OF Some Directory this] "2.prems"(2,3) show ?thesis by auto
    next
      case (RegularFile x)
      with Some "2.prems" show ?thesis by simp
    qed
  qed
next
  case (3 q content rest k dst t)
  from "3.prems"(2) have q: "k < length q" "list_all valid_name q" by auto
  then have qn: "q \<noteq> []" by auto
  have new: "length dst < length (dst @ drop k q)" "list_all valid_name (dst @ drop k q)"
    "length dst < length (dst @ drop k q @ [last q])" "list_all valid_name (dst @ drop k q @ [last q])"
    using q qn "3.prems"(3) by (auto simp: list_all_iff dest: in_set_dropD)
  show ?case
  proof (cases "lookup t (dst @ drop k q)")
    case None
    with "3.prems" have "copy_entries rest k dst (t @ [(dst @ drop k q, RegularFile content)]) = (ok, t')"
      by simp
    from "3.IH"(1) [OF None this] "3.prems"(2,3)
    obtain extra where "t' = (t @ [(dst @ drop k q, RegularFile content)]) @ extra"
      "\<forall>(p, e)\<in>set extra. length dst < length p \<and> list_all valid_name p"
      by auto
    then show ?thesis using new
      by (intro exI [of _ "(dst @ drop k q, RegularFile content) # extra"]) auto
  next
    case (Some a)
    show ?thesis
    proof (cases a)
      case Directory
      show ?thesis
      proof (cases "lookup t (dst @ drop k q @ [last q]) = None")
        case True
        with Some Directory "3.prems"
        have "copy_entries rest k dst (t @ [(dst @ drop k q @ [last q], RegularFile content)]) = (ok, t')"
          by simp
        from "3.IH"(2) [OF Some Directory True this] "3.prems"(2,3)
        obtain extra where "t' = (t @ [(dst @ drop k q @ [last q], RegularFile content)]) @ extra"
          "\<forall>(p, e)\<in>set extra. length dst < length p \<and> list_all valid_name p"
          by auto
        then show ?thesis using new
          by (intro exI [of _ "(dst @ drop k q @ [last q], RegularFile content) # extra"]) auto
      next
        case False
        with Some Directory "3.prems" show ?thesis by simp
      qed
    next
      case (RegularFile x)
      with Some "3.prems" show ?thesis by simp
    qed
  qed
qed

lemma copy_directory_extends:
  assumes src: "status from t = Some Directory" and c: "copy from to t = (ok, t')"
    and v: "valid_fs t"
  shows "\<exists>pre extra. t' = t @ pre @ extra \<and> length pre \<le> 1 \<and> valid_fs pre
           \<and> (\<forall>(p, e)\<in>set extra. length (resolve to) < length p \<and> list_all valid_name p)"
proof -
  define below where "below = sort_key (\<lambda>(q, e). length q)
                         (filter (\<lambda>(q, e). strict_prefix (resolve from) q) t)"
  have b: "\<forall>(q, e)\<in>set below. length (resolve from) < length q \<and> list_all valid_name q"
    using v by (auto simp: below_def valid_fs_def list_all_iff dest: prefix_length_less)
  have unchanged: "t' = t \<Longrightarrow> ?thesis"
  proof -
    assume "t' = t"
    then have "t' = t @ [] @ [] \<and> length ([]::filesystem) \<le> 1 \<and> valid_fs []
           \<and> (\<forall>(p, e)\<in>set ([]::filesystem). length (resolve to) < length p \<and> list_all valid_name p)"
      by (simp add: valid_fs_def)
    then show ?thesis by blast
  qed
  show ?thesis
  proof (cases "to = [] \<or> prefix (resolve from) (resolve to)")
    case True
    with src c have "t' = t" by (auto simp: copy_def Let_def)
    then show ?thesis by (rule unchanged)
  next
    case False
    show ?thesis
    proof (cases "status to t")
      case None
      show ?thesis
      proof (cases "lookup t (butlast (resolve to)) = Some Directory")
        case True
        with src c False None
        have "copy_entries below (length (resolve from)) (resolve to) (t @ [(resolve to, Directory)]) = (ok, t')"
          by (simp add: copy_def Let_def below_def)
        from copy_entries_extends [OF this b resolve_valid]
        obtain extra where "t' = (t @ [(resolve to, Directory)]) @ extra"
          "\<forall>(p, e)\<in>set extra. length (resolve to) < length p \<and> list_all valid_name p"
          by blast
        then have "t' = t @ [(resolve to, Directory)] @ extra
            \<and> length [(resolve to, Directory)] \<le> 1 \<and> valid_fs [(resolve to, Directory)]
            \<and> (\<forall>(p, e)\<in>set extra. length (resolve to) < length p \<and> list_all valid_name p)"
          by (simp add: valid_fs_def resolve_valid)
        then show ?thesis by blast
      next
        case f: False
        with src c False None have "t' = t" by (simp add: copy_def Let_def)
        then show ?thesis by (rule unchanged)
      qed
    next
      case (Some a)
      show ?thesis
      proof (cases a)
        case Directory
        with src c False Some
        have "copy_entries below (length (resolve from)) (resolve to) t = (ok, t')"
          by (simp add: copy_def Let_def below_def)
        from copy_entries_extends [OF this b resolve_valid]
        obtain extra where "t' = t @ extra"
          "\<forall>(p, e)\<in>set extra. length (resolve to) < length p \<and> list_all valid_name p"
          by blast
        then have "t' = t @ [] @ extra \<and> length ([]::filesystem) \<le> 1 \<and> valid_fs []
            \<and> (\<forall>(p, e)\<in>set extra. length (resolve to) < length p \<and> list_all valid_name p)"
          by (simp add: valid_fs_def)
        then show ?thesis by blast
      next
        case (RegularFile x)
        with src c False Some have "t' = t" by (simp add: copy_def Let_def)
        then show ?thesis by (rule unchanged)
      qed
    qed
  qed
qed

lemma valid_fs_append: "valid_fs (a @ b) \<longleftrightarrow> valid_fs a \<and> valid_fs b"
  by (simp add: valid_fs_def)

lemma is_directory_append: "is_directory root t \<Longrightarrow> is_directory root (t @ x)"
  by (auto simp: is_directory_def status_def lookup_def map_add_Some_iff split: if_splits)

lemma snapshots_append_le:
  assumes dir: "is_directory root t" and pre: "length pre \<le> 1"
    and extra: "\<forall>(p, e)\<in>set extra. length (resolve root) + 1 < length p"
  shows "length (snapshots root (t @ pre @ extra)) \<le> Suc (length (snapshots root t))"
proof -
  let ?child = "\<lambda>(q, e). q \<noteq> [] \<and> butlast q = resolve root"
  let ?f = "\<lambda>(q, e). (path_append root (last q), e)"
  let ?g = "\<lambda>entry. snd entry = Directory \<and> starts_with (filename (fst entry)) ''Backup_''"
  have "filter ?child extra = []"
  proof -
    have "\<not> ?child x" if "x \<in> set extra" for x
    proof -
      obtain p e where x: "x = (p, e)" by (cases x)
      with that extra have l: "length (resolve root) + 1 < length p" by auto
      have "butlast p \<noteq> resolve root"
      proof
        assume "butlast p = resolve root"
        then have "length (resolve root) = length p - 1" by (metis length_butlast)
        with l show False by simp
      qed
      then show ?thesis by (simp add: x)
    qed
    then show ?thesis by (auto simp: filter_empty_conv)
  qed
  then have "snapshots root (t @ pre @ extra)
               = snapshots root t @ filter ?g (map ?f (filter ?child pre))"
    using dir is_directory_append [OF dir, of "pre @ extra"]
    by (simp add: snapshots_def directory_iterator_def)
  then have a: "length (snapshots root (t @ pre @ extra))
               = length (snapshots root t) + length (filter ?g (map ?f (filter ?child pre)))"
    by (simp only: length_append)
  have "length (filter ?g (map ?f (filter ?child pre))) \<le> length (map ?f (filter ?child pre))"
    by (rule length_filter_le)
  also have "\<dots> = length (filter ?child pre)" by (rule length_map)
  also have "\<dots> \<le> length pre" by (rule length_filter_le)
  finally have b: "length (filter ?g (map ?f (filter ?child pre))) \<le> 1"
    using pre by (rule order_trans)
  show ?thesis unfolding a using b by arith
qed

lemma status_erase:
  "status s (erase x t) = None \<or> status s (erase x t) = status s t"
  by (simp add: status_def erase_def lookup_def map_of_filter_key)

lemma status_foldl_remove:
  "status s (foldl (\<lambda>t b. erase (fst b) t) t bs) = None
     \<or> status s (foldl (\<lambda>t b. erase (fst b) t) t bs) = status s t"
proof (induction bs arbitrary: t)
  case Nil
  show ?case by simp
next
  case (Cons b bs)
  from Cons.IH [of "erase (fst b) t"] status_erase [of s "fst b" t]
  show ?case by auto
qed

lemma cleanup_status:
  assumes "1 \<le> m" "is_directory root (fs w)" "cleanup_old_backups root m verb w = (r, w1)"
  shows "status s (fs w1) = None \<or> status s (fs w1) = status s (fs w)"
proof -
  from assms(3) have "fs w1 = foldl (\<lambda>t b. erase (fst b) t) (fs w)
               (take (Suc (length (snapshots root (fs w))) - m)
                  (sort_key (\<lambda>b. filename (fst b)) (snapshots root (fs w))))"
    unfolding cleanup_old_backups_closed [OF assms(1,2)] by auto
  then show ?thesis using status_foldl_remove by simp
qed

lemma copy_missing: "status from t = None \<Longrightarrow> copy from to t = (False, t)"
  by (simp add: copy_def)

lemma perform_backup_success:
  assumes "perform_backup config localtime w = (Returns True, w')"
  obtains src u w1 where
    "is_directory src (fs w)"
    "cleanup_old_backups (backupRoot config) (maxBackups config) (verbose config) w = (Returns u, w1)"
    "copy src (path_append (backupRoot config) (make_timestamp_folder_name localtime)) (fs w1)
       = (True, fs w')"
  using assms
  by (auto simp: perform_backup_def Let_def print_def eprint_def
      split: sum.splits if_splits prod.splits outcome.splits bool.splits)

lemma create_bound:
  assumes m: "1 \<le> maxBackups config" and v: "valid_fs (fs w)"
    and p: "perform_backup config localtime w = (Returns True, w')"
  shows "length (snapshots (backupRoot config) (fs w')) \<le> maxBackups config \<and> valid_fs (fs w')"
proof -
  let ?root = "backupRoot config"
  let ?name = "make_timestamp_folder_name localtime"
  from p obtain src u w1 where
    src: "is_directory src (fs w)"
    and c: "cleanup_old_backups ?root (maxBackups config) (verbose config) w = (Returns u, w1)"
    and cp: "copy src (path_append ?root ?name) (fs w1) = (True, fs w')"
    by (rule perform_backup_success)
  have dir: "is_directory ?root (fs w)"
    using c by (auto simp: cleanup_old_backups_def directory_iterator_def split: if_splits option.splits)
  from cleanup_count [OF m v dir c]
  have d1: "is_directory ?root (fs w1)" and v1: "valid_fs (fs w1)"
    and n1: "length (snapshots ?root (fs w1)) \<le> maxBackups config - 1"
    by simp_all
  have s1: "status src (fs w1) = Some Directory"
    using cleanup_status [OF m dir c, of src] src copy_missing [of src "fs w1"] cp
    by (auto simp: is_directory_def)
  from copy_directory_extends [OF s1 cp v1]
  obtain pre extra where e: "fs w' = fs w1 @ pre @ extra" "length pre \<le> 1" "valid_fs pre"
    "\<forall>(p, e)\<in>set extra. length (resolve (path_append ?root ?name)) < length p \<and> list_all valid_name p"
    by blast
  have r: "resolve (path_append ?root ?name) = resolve ?root @ [?name]"
    by (rule resolve_path_append [OF name_valid])
  have "\<forall>(p, e)\<in>set extra. length (resolve ?root) + 1 < length p"
    using e(4) unfolding r by auto
  from snapshots_append_le [OF d1 e(2) this]
  have "length (snapshots ?root (fs w')) \<le> Suc (length (snapshots ?root (fs w1)))"
    unfolding e(1) .
  with n1 m have "length (snapshots ?root (fs w')) \<le> maxBackups config" by arith
  moreover have "valid_fs (fs w')"
    using v1 e(3,4) unfolding e(1) by (auto simp: valid_fs_append) (auto simp: valid_fs_def list_all_iff)
  ultimately show ?thesis by simp
qed

text \<open>
  Claim C1. For a retention count of at least one, after every sequence of successful
  create operations (each the retention step followed by the recursive copy of
  \<^verbatim>\<open>perform_backup\<close>), started in any tree of proper names, the backup root holds at most
  the retention count of snapshot entries.
\<close>

theorem retention_bound:
  assumes "1 \<le> maxBackups config" and "valid_fs (fs w)" and "localtimes \<noteq> []"
    and "creates config localtimes w = Some w'"
  shows "length (snapshots (backupRoot config) (fs w')) \<le> maxBackups config"
  using assms
proof (induction localtimes arbitrary: w)
  case Nil
  then show ?case by simp
next
  case (Cons localtime rest)
  from Cons.prems(4) obtain w1 where
    p: "perform_backup config localtime w = (Returns True, w1)" and r: "creates config rest w1 = Some w'"
    by (auto split: prod.splits outcome.splits bool.splits)
  from create_bound [OF Cons.prems(1,2) p]
  have b: "length (snapshots (backupRoot config) (fs w1)) \<le> maxBackups config" and v: "valid_fs (fs w1)"
    by simp_all
  show ?case
  proof (cases "rest = []")
    case True
    with r b show ?thesis by simp
  next
    case False
    from Cons.IH [OF Cons.prems(1) v False r] show ?thesis .
  qed
qed

lemmas eval_defs = perform_backup_def cleanup_old_backups_def make_timestamp_folder_name_def
  put_time_def pad2_def show_nat.simps digit_char_def starts_with_def Let_def
  path_defs fs_defs io_defs

lemma example_create_1:
  "perform_backup (default_config\<lparr>sourcePath := ''src'', maxBackups := 1\<rparr>) None
     (start_world example_tree)
   = (Returns True,
      \<lparr>fs = example_tree @ [([''CopiedFiles'', ''Backup_Error''], Directory),
              ([''CopiedFiles'', ''Backup_Error'', ''a.txt''], RegularFile ''hello'')],
       cout = [check_mark @ '' Created backup: Backup_Error''], cerr = [], steady_clock = 0\<rparr>)"
  by (simp add: eval_defs default_config_def example_tree_def start_world_def)

lemma example_create_2:
  "perform_backup (default_config\<lparr>sourcePath := ''src'', maxBackups := 1\<rparr>) (Some example_time)
     \<lparr>fs = example_tree @ [([''CopiedFiles'', ''Backup_Error''], Directory),
              ([''CopiedFiles'', ''Backup_Error'', ''a.txt''], RegularFile ''hello'')],
       cout = [check_mark @ '' Created backup: Backup_Error''], cerr = [], steady_clock = 0\<rparr>
   = (Returns True,
      \<lparr>fs = example_tree @ [([''CopiedFiles'', ''Backup_2024-01-02_03-04-05''], Directory),
              ([''CopiedFiles'', ''Backup_2024-01-02_03-04-05'', ''a.txt''], RegularFile ''hello'')],
       cout = [check_mark @ '' Created backup: Backup_Error'',
               check_mark @ '' Created backup: Backup_2024-01-02_03-04-05''],
       cerr = [], steady_clock = 0\<rparr>)"
  by (simp add: eval_defs default_config_def example_tree_def example_time_def)

theorem retention_bound_witness:
  "1 \<le> maxBackups (default_config\<lparr>sourcePath := ''src'', maxBackups := 1\<rparr>)
   \<and> valid_fs (fs (start_world example_tree))
   \<and> creates (default_config\<lparr>sourcePath := ''src'', maxBackups := 1\<rparr>) [None, Some example_time]
         (start_world example_tree)
       = Some \<lparr>fs = example_tree @ [([''CopiedFiles'', ''Backup_2024-01-02_03-04-05''], Directory),
                     ([''CopiedFiles'', ''Backup_2024-01-02_03-04-05'', ''a.txt''], RegularFile ''hello'')],
                cout = [check_mark @ '' Created backup: Backup_Error'',
                        check_mark @ '' Created backup: Backup_2024-01-02_03-04-05''],
                cerr = [], steady_clock = 0\<rparr>
   \<and> length (snapshots ''CopiedFiles''
         (example_tree @ [([''CopiedFiles'', ''Backup_2024-01-02_03-04-05''], Directory),
            ([''CopiedFiles'', ''Backup_2024-01-02_03-04-05'', ''a.txt''], RegularFile ''hello'')])) \<le> 1"
proof -
  let ?config = "default_config\<lparr>sourcePath := ''src'', maxBackups := 1\<rparr>"
  have m: "1 \<le> maxBackups ?config" by simp
  have v: "valid_fs (fs (start_world example_tree))"
    by (simp add: valid_fs_def valid_name_def start_world_def example_tree_def)
  have n: "[None, Some example_time] \<noteq> []" by simp
  have c: "creates ?config [None, Some example_time] (start_world example_tree)
       = Some \<lparr>fs = example_tree @ [([''CopiedFiles'', ''Backup_2024-01-02_03-04-05''], Directory),
                     ([''CopiedFiles'', ''Backup_2024-01-02_03-04-05'', ''a.txt''], RegularFile ''hello'')],
                cout = [check_mark @ '' Created backup: Backup_Error'',
                        check_mark @ '' Created backup: Backup_2024-01-02_03-04-05''],
                cerr = [], steady_clock = 0\<rparr>"
    by (simp add: example_create_1 example_create_2 del: One_nat_def)
  from retention_bound [OF m v n c] m v c show ?thesis
    by (simp add: default_config_def del: One_nat_def)
qed

section \<open>Naming on a clock failure\<close>

text \<open>
  The claim as stated in C2 fails: with a failed local-time conversion the name is made
  all the same, the create operation goes on and succeeds under that name.
\<close>

theorem clock_failure_counterexample:
  "make_timestamp_folder_name None = ''Backup_Error''
   \<and> fst (perform_backup (default_config\<lparr>sourcePath := ''src''\<rparr>) None (start_world example_tree))
       = Returns True
   \<and> fs (snd (perform_backup (default_config\<lparr>sourcePath := ''src''\<rparr>) None
               (start_world example_tree)))
       = example_tree @ [([''CopiedFiles'', ''Backup_Error''], Directory),
           ([''CopiedFiles'', ''Backup_Error'', ''a.txt''], RegularFile ''hello'')]"
  by (simp add: eval_defs default_config_def example_tree_def start_world_def)

text \<open>
  Claim C2, amended. When the local-time conversion fails, \<^verbatim>\<open>make_timestamp_folder_name\<close>
  returns the fixed name \<^verbatim>\<open>Backup_Error\<close> and raises nothing; \<^verbatim>\<open>perform_backup\<close> does not
  abort but copies the source to that name under the backup root, and returns what
  that copy gives.
\<close>

theorem clock_failure_sentinel:
  assumes "(if sourcePath config \<noteq> [] then Inr (sourcePath config)
            else read_path_from_file (configFile config) (fs w)) = Inr src"
    and "is_directory src (fs w)"
    and "cleanup_old_backups (backupRoot config) (maxBackups config) (verbose config) w
           = (Returns u, w1)"
  shows "make_timestamp_folder_name None = ''Backup_Error''
     \<and> fst (perform_backup config None w)
         = Returns (fst (copy src (path_append (backupRoot config) ''Backup_Error'') (fs w1)))
     \<and> fs (snd (perform_backup config None w))
         = snd (copy src (path_append (backupRoot config) ''Backup_Error'') (fs w1))"
proof -
  have n: "make_timestamp_folder_name None = ''Backup_Error''"
    by (simp add: make_timestamp_folder_name_def)
  have e: "fs_exists src (fs w)"
    using assms(2) by (simp add: is_directory_def fs_exists_def)
  obtain ok t where c: "copy src (path_append (backupRoot config) ''Backup_Error'') (fs w1) = (ok, t)"
    by (cases "copy src (path_append (backupRoot config) ''Backup_Error'') (fs w1)")
  show ?thesis
    unfolding perform_backup_def assms(1) n
    using assms(2,3) e c by (cases ok) (simp_all add: Let_def print_def eprint_def)
qed

theorem clock_failure_sentinel_witness:
  "fst (perform_backup (default_config\<lparr>sourcePath := ''src'', verbose := True\<rparr>) None
          (start_world example_tree)) = Returns True
   \<and> fs (snd (perform_backup (default_config\<lparr>sourcePath := ''src'', verbose := True\<rparr>) None
                 (start_world example_tree)))
       = example_tree @ [([''CopiedFiles'', ''Backup_Error''], Directory),
           ([''CopiedFiles'', ''Backup_Error'', ''a.txt''], RegularFile ''hello'')]"
proof -
  let ?config = "default_config\<lparr>sourcePath := ''src'', verbose := True\<rparr>"
  let ?w = "start_world example_tree"
  have a: "(if sourcePath ?config \<noteq> [] then Inr (sourcePath ?config)
            else read_path_from_file (configFile ?config) (fs ?w)) = Inr ''src''"
    by simp
  have b: "is_directory ''src'' (fs ?w)"
    by (simp add: start_world_def example_tree_def path_defs fs_defs)
  have c: "cleanup_old_backups (backupRoot ?config) (maxBackups ?config) (verbose ?config) ?w
             = (Returns (), ?w)"
    by (simp add: eval_defs default_config_def start_world_def example_tree_def)
  have d: "copy ''src'' (path_append (backupRoot ?config) ''Backup_Error'') (fs ?w)
             = (True, example_tree @ [([''CopiedFiles'', ''Backup_Error''], Directory),
                  ([''CopiedFiles'', ''Backup_Error'', ''a.txt''], RegularFile ''hello'')])"
    by (simp add: eval_defs default_config_def start_world_def example_tree_def)
  from clock_failure_sentinel [OF a b c] show ?thesis
    by (simp only: d fst_conv snd_conv)
qed

section \<open>Operations of \<^verbatim>\<open>main\<close>\<close>

lemma main_to_operation:
  assumes "parse_arguments args = Inr config" and "\<not> help_flag config"
    and "listBackups config \<or> fs_exists (backupRoot config) (fs (create_readme_file w))"
  shows "main env prog args w = main_operation env prog args config (create_readme_file w)"
  using assms by (auto simp: main_def Let_def)

text \<open>
  Claim C7. Restore with a snapshot name for which nothing exists at the root's path
  with that name fails: \<^verbatim>\<open>restore_backup\<close> returns \<^verbatim>\<open>false\<close> with only a message on the
  error stream, and \<^verbatim>\<open>main\<close> exits with code 1, the tree being what it was when the
  operation began (\<open>w0\<close>, after \<^verbatim>\<open>README.txt\<close> was written and with the backup root
  there): no parent directory is created, no target is removed.
\<close>

theorem restore_missing_snapshot:
  assumes "w0 = create_readme_file w"
    and "parse_arguments args = Inr config" and "\<not> help_flag config" and "\<not> listBackups config"
    and "restoreBackup config = Some name"
    and "fs_exists (backupRoot config) (fs w0)"
    and "\<not> fs_exists (path_append (backupRoot config) name) (fs w0)"
  shows "(\<forall>root target w1. \<not> fs_exists (path_append root name) (fs w1) \<longrightarrow>
            restore_backup name root target w1
              = (False, eprint [''Backup not found: '' @ name] w1))
     \<and> fst (main env prog args w) = Exit 1
     \<and> fs (snd (main env prog args w)) = fs w0
     \<and> cout (snd (main env prog args w)) = cout w0"
proof -
  have r: "restore_backup name root target w1
             = (False, eprint [''Backup not found: '' @ name] w1)"
    if "\<not> fs_exists (path_append root name) (fs w1)" for root target w1
    using that by (simp add: restore_backup_def)
  have m: "main env prog args w = main_operation env prog args config w0"
    unfolding assms(1) using assms(2,3,6) unfolding assms(1) by (intro main_to_operation) auto
  have "fst (main env prog args w) = Exit 1
     \<and> fs (snd (main env prog args w)) = fs w0
     \<and> cout (snd (main env prog args w)) = cout w0"
    unfolding m using assms(4,5) r [OF assms(7)]
    by (simp add: main_operation_def Let_def eprint_def)
  with r show ?thesis by blast
qed

lemmas parse_defs = parse_arguments_def stoul_def is_space_def is_digit_def digit_val_def
  ULONG_MAX_def minutes_of_ulong_def

theorem restore_missing_snapshot_witness:
  "restore_backup ''Backup_2020-01-01_00-00-00'' ''CopiedFiles'' ''out/sub'' (start_world restore_example)
     = (False, eprint [''Backup not found: Backup_2020-01-01_00-00-00''] (start_world restore_example))
   \<and> fst (main example_env ''FlameUp'' [''--restore'', ''Backup_2020-01-01_00-00-00'', ''--restore-to'', ''out/sub'']
           (start_world restore_example)) = Exit 1
   \<and> fs (snd (main example_env ''FlameUp'' [''--restore'', ''Backup_2020-01-01_00-00-00'', ''--restore-to'', ''out/sub'']
           (start_world restore_example))) = restore_example"
proof -
  let ?w = "start_world restore_example"
  let ?args = "[''--restore'', ''Backup_2020-01-01_00-00-00'', ''--restore-to'', ''out/sub'']"
  let ?config = "default_config\<lparr>restoreBackup := Some ''Backup_2020-01-01_00-00-00''\<rparr>"
  have a: "?w = create_readme_file ?w"
    by (simp add: create_readme_file_def start_world_def restore_example_def path_defs fs_defs)
  have b: "parse_arguments ?args = Inr ?config"
    by (simp add: parse_defs)
  have c: "\<not> help_flag ?config" "\<not> listBackups ?config"
    "restoreBackup ?config = Some ''Backup_2020-01-01_00-00-00''"
    by (simp_all add: default_config_def)
  have d: "fs_exists (backupRoot ?config) (fs ?w)"
    by (simp add: default_config_def start_world_def restore_example_def path_defs fs_defs)
  have e: "\<not> fs_exists (path_append (backupRoot ?config) ''Backup_2020-01-01_00-00-00'') (fs ?w)"
    by (simp add: default_config_def start_world_def restore_example_def path_defs fs_defs)
  note t = restore_missing_snapshot [OF a b c d e, of example_env "''FlameUp''"]
  from t have g: "restore_backup ''Backup_2020-01-01_00-00-00'' root target w1
       = (False, eprint [''Backup not found: '' @ ''Backup_2020-01-01_00-00-00''] w1)"
    if "\<not> fs_exists (path_append root ''Backup_2020-01-01_00-00-00'') (fs w1)" for root target w1
    using that by blast
  from g [OF e, of "''out/sub''"] t show ?thesis by (simp add: start_world_def default_config_def)
qed

text \<open>
  Claim C8. When the backup root does not exist, or is a directory without snapshots,
  listing is no error: \<^verbatim>\<open>main\<close> prints one line saying so and exits with code 0, and
  nothing else changes.
\<close>

theorem list_without_backups:
  assumes "w0 = create_readme_file w"
    and "parse_arguments args = Inr config" and "\<not> help_flag config" and "listBackups config"
    and "\<not> fs_exists (backupRoot config) (fs w0)
         \<or> is_directory (backupRoot config) (fs w0) \<and> snapshots (backupRoot config) (fs w0) = []"
  shows "main env prog args w
           = (Exit 0,
              print [(if fs_exists (backupRoot config) (fs w0) then ''No backups found in: ''
                      else ''No backup directory found at: '') @ quoted (backupRoot config)] w0)"
proof -
  have m: "main env prog args w = main_operation env prog args config w0"
    unfolding assms(1) using assms(2,3,4) by (intro main_to_operation) auto
  from assms(5) show ?thesis
  proof
    assume "\<not> fs_exists (backupRoot config) (fs w0)"
    then show ?thesis
      unfolding m using assms(4) by (simp add: main_operation_def list_backups_def)
  next
    assume a: "is_directory (backupRoot config) (fs w0) \<and> snapshots (backupRoot config) (fs w0) = []"
    then have e: "fs_exists (backupRoot config) (fs w0)"
      by (simp add: is_directory_def fs_exists_def)
    from a obtain entries where d: "directory_iterator (backupRoot config) (fs w0) = Some entries"
      by (auto simp: directory_iterator_def)
    with a have "filter (\<lambda>entry. snd entry = Directory \<and> starts_with (filename (fst entry)) ''Backup_'')
                   entries = []"
      by (simp add: snapshots_def)
    then show ?thesis
      unfolding m using assms(4) e d by (simp add: main_operation_def list_backups_def)
  qed
qed

theorem list_without_backups_witness:
  "main example_env ''FlameUp'' [''--list''] (start_world [([''README.txt''], RegularFile ''readme'')])
     = (Exit 0, print [''No backup directory found at: '' @ quoted ''CopiedFiles'']
                  (start_world [([''README.txt''], RegularFile ''readme'')]))
   \<and> main example_env ''FlameUp'' [''--list'', ''-o'', ''backups'']
         (start_world [([''README.txt''], RegularFile ''readme''), ([''backups''], Directory),
            ([''backups'', ''notes.txt''], RegularFile ''n'')])
     = (Exit 0, print [''No backups found in: '' @ quoted ''backups'']
                  (start_world [([''README.txt''], RegularFile ''readme''), ([''backups''], Directory),
                     ([''backups'', ''notes.txt''], RegularFile ''n'')]))"
proof -
  let ?w1 = "start_world [([''README.txt''], RegularFile ''readme'')]"
  let ?w2 = "start_world [([''README.txt''], RegularFile ''readme''), ([''backups''], Directory),
            ([''backups'', ''notes.txt''], RegularFile ''n'')]"
  let ?c1 = "default_config\<lparr>listBackups := True\<rparr>"
  let ?c2 = "default_config\<lparr>listBackups := True, backupRoot := ''backups''\<rparr>"
  have a1: "?w1 = create_readme_file ?w1" and a2: "?w2 = create_readme_file ?w2"
    by (simp_all add: create_readme_file_def start_world_def path_defs fs_defs)
  have b1: "parse_arguments [''--list''] = Inr ?c1"
    and b2: "parse_arguments [''--list'', ''-o'', ''backups''] = Inr ?c2"
    by (simp_all add: parse_defs)
  have c1: "\<not> help_flag ?c1" "listBackups ?c1" and c2: "\<not> help_flag ?c2" "listBackups ?c2"
    by (simp_all add: default_config_def)
  have d1: "\<not> fs_exists (backupRoot ?c1) (fs ?w1)
         \<or> is_directory (backupRoot ?c1) (fs ?w1) \<and> snapshots (backupRoot ?c1) (fs ?w1) = []"
    by (simp add: default_config_def start_world_def path_defs fs_defs)
  have e2: "fs_exists (backupRoot ?c2) (fs ?w2)"
    by (simp add: default_config_def start_world_def path_defs fs_defs)
  have d2: "\<not> fs_exists (backupRoot ?c2) (fs ?w2)
         \<or> is_directory (backupRoot ?c2) (fs ?w2) \<and> snapshots (backupRoot ?c2) (fs ?w2) = []"
    by (simp add: default_config_def start_world_def snapshots_def starts_with_def path_defs fs_defs)
  have f1: "\<not> fs_exists (backupRoot ?c1) (fs ?w1)"
    by (simp add: default_config_def start_world_def path_defs fs_defs)
  from list_without_backups [OF a1 b1 c1 d1, of example_env "''FlameUp''"]
       list_without_backups [OF a2 b2 c2 d2, of example_env "''FlameUp''"]
  show ?thesis
    by (simp only: f1 e2 if_True if_False) (simp add: default_config_def)
qed

section \<open>Eviction order\<close>

text \<open>
  Claim C5. Retention sorts the catalog by the file names as strings, oldest first,
  and deletes from the front while the size of the working set is at least the
  retention count: for a count of at least one, what it deletes is the first
  \<open>n + 1 - m\<close> entries of the sorted catalog of \<open>n\<close>, in that order (the order of the
  log lines), and for the three snapshots of the example and a count of 2 the first
  one deleted is \<^verbatim>\<open>Backup_2024-01-01_00-00-00\<close>.
\<close>

theorem cleanup_evicts_oldest_first:
  assumes "1 \<le> m" and "is_directory root (fs w)"
    and "catalog = sort_key (\<lambda>b. filename (fst b)) (snapshots root (fs w))"
    and "evicted = take (Suc (length catalog) - m) catalog"
  shows "sorted (map (\<lambda>b. filename (fst b)) catalog)
     \<and> mset catalog = mset (snapshots root (fs w))
     \<and> cleanup_old_backups root m verb w
         = (Returns (),
            w\<lparr>fs := foldl (\<lambda>t b. erase (fst b) t) (fs w) evicted,
              cout := cout w @ (if verb
                                then map (\<lambda>b. ''Deleting old backup: '' @ quoted (filename (fst b)))
                                       evicted
                                else [])\<rparr>)"
proof -
  have "sorted (map (\<lambda>b. filename (fst b)) catalog)"
    unfolding assms(3) by (rule sorted_sort_key)
  moreover have "mset catalog = mset (snapshots root (fs w))"
    unfolding assms(3) by simp
  moreover have "length catalog = length (snapshots root (fs w))"
    unfolding assms(3) by simp
  ultimately show ?thesis
    unfolding assms(4) using cleanup_old_backups_closed [OF assms(1,2), of verb]
    by (simp add: assms(3))
qed

lemma less_digit_eval [simp]:
  "(CHR ''1'' < CHR ''2'') = True" "(CHR ''1'' < CHR ''3'') = True" "(CHR ''2'' < CHR ''3'') = True"
  "(CHR ''2'' < CHR ''1'') = False" "(CHR ''3'' < CHR ''1'') = False" "(CHR ''3'' < CHR ''2'') = False"
  by (simp_all add: less_char_def)

theorem cleanup_evicts_oldest_first_witness:
  "is_directory ''CopiedFiles'' (fs (start_world three_snapshots))
   \<and> take (Suc (length (sort_key (\<lambda>b. filename (fst b)) (snapshots ''CopiedFiles'' three_snapshots))) - 2)
        (sort_key (\<lambda>b. filename (fst b)) (snapshots ''CopiedFiles'' three_snapshots))
       = [(''CopiedFiles/Backup_2024-01-01_00-00-00'', Directory),
          (''CopiedFiles/Backup_2024-01-02_00-00-00'', Directory)]
   \<and> cleanup_old_backups ''CopiedFiles'' 2 True (start_world three_snapshots)
       = (Returns (),
          \<lparr>fs = [([''CopiedFiles''], Directory),
                 ([''CopiedFiles'', ''Backup_2024-01-03_00-00-00''], Directory)],
           cout = [''Deleting old backup: '' @ quoted ''Backup_2024-01-01_00-00-00'',
                   ''Deleting old backup: '' @ quoted ''Backup_2024-01-02_00-00-00''],
           cerr = [], steady_clock = 0\<rparr>)"
proof -
  let ?w = "start_world three_snapshots"
  have m: "1 \<le> (2::nat)" by simp
  have d: "is_directory ''CopiedFiles'' (fs ?w)"
    by (simp add: start_world_def three_snapshots_def path_defs fs_defs)
  have s: "snapshots ''CopiedFiles'' (fs ?w)
             = [(''CopiedFiles/Backup_2024-01-02_00-00-00'', Directory),
                (''CopiedFiles/Backup_2024-01-03_00-00-00'', Directory),
                (''CopiedFiles/Backup_2024-01-01_00-00-00'', Directory)]"
    by (simp add: snapshots_def start_world_def three_snapshots_def starts_with_def path_defs fs_defs)
  have c: "sort_key (\<lambda>b. filename (fst b)) (snapshots ''CopiedFiles'' (fs ?w))
             = [(''CopiedFiles/Backup_2024-01-01_00-00-00'', Directory),
                (''CopiedFiles/Backup_2024-01-02_00-00-00'', Directory),
                (''CopiedFiles/Backup_2024-01-03_00-00-00'', Directory)]"
    unfolding s by (simp add: path_defs)
  have e: "take (Suc (length (sort_key (\<lambda>b. filename (fst b)) (snapshots ''CopiedFiles'' (fs ?w)))) - 2)
             (sort_key (\<lambda>b. filename (fst b)) (snapshots ''CopiedFiles'' (fs ?w)))
           = [(''CopiedFiles/Backup_2024-01-01_00-00-00'', Directory),
              (''CopiedFiles/Backup_2024-01-02_00-00-00'', Directory)]"
    unfolding c by simp
  from cleanup_evicts_oldest_first [OF m d refl refl, of True] d e
  show ?thesis
    by (simp add: start_world_def three_snapshots_def path_defs fs_defs)
qed

section \<open>The catalog\<close>

text \<open>
  The claim as stated in C9 fails: a regular file whose name starts with \<^verbatim>\<open>Backup_\<close>
  is an entry under the backup root with the prefix, and is not in the catalog.
\<close>

theorem catalog_prefix_only_counterexample:
  "lookup stray_example [''CopiedFiles'', ''Backup_notes.txt''] = Some (RegularFile ''a file'')
   \<and> starts_with ''Backup_notes.txt'' ''Backup_''
   \<and> snapshots ''CopiedFiles'' stray_example
       = [(''CopiedFiles/Backup_2024-01-01_00-00-00'', Directory)]"
  by (simp add: snapshots_def stray_example_def starts_with_def path_defs fs_defs)

lemma foldl_remove_filter:
  "\<forall>b\<in>set bs. fst b \<noteq> [] \<Longrightarrow>
   foldl (\<lambda>t b. erase (fst b) t) t bs
     = filter (\<lambda>(q, e). \<forall>b\<in>set bs. \<not> prefix (resolve (fst b)) q) t"
proof (induction bs arbitrary: t)
  case Nil
  show ?case by simp
next
  case (Cons b bs)
  then have "foldl (\<lambda>t b. erase (fst b) t) (erase (fst b) t) bs
      = filter (\<lambda>(q, e). \<forall>b\<in>set bs. \<not> prefix (resolve (fst b)) q) (erase (fst b) t)"
    by simp
  also have "\<dots> = filter (\<lambda>(q, e). \<forall>b\<in>set (b # bs). \<not> prefix (resolve (fst b)) q) t"
    using Cons.prems by (auto simp: erase_def intro!: filter_cong)
  finally show ?case by simp
qed

lemma snapshots_set:
  assumes "valid_fs t" and "is_directory root t"
  shows "set (snapshots root t)
    = {(path_append root n, Directory) | n.
         (resolve root @ [n], Directory) \<in> set t \<and> starts_with n ''Backup_''}"
proof (intro set_eqI iffI)
  fix x assume "x \<in> set (snapshots root t)"
  then obtain q where q: "(q, Directory) \<in> set t" "q \<noteq> []" "butlast q = resolve root"
    "x = (path_append root (last q), Directory)"
    "starts_with (filename (path_append root (last q))) ''Backup_''"
    using assms(2) by (auto simp: snapshots_def directory_iterator_def)
  from q(1,2) assms(1) have v: "valid_name (last q)"
    by (auto simp: valid_fs_def list_all_iff)
  from q(2,3) have "q = resolve root @ [last q]" by (metis append_butlast_last_id)
  with q v show "x \<in> {(path_append root n, Directory) | n.
         (resolve root @ [n], Directory) \<in> set t \<and> starts_with n ''Backup_''}"
    by (auto simp: filename_path_append)
next
  fix x assume "x \<in> {(path_append root n, Directory) | n.
         (resolve root @ [n], Directory) \<in> set t \<and> starts_with n ''Backup_''}"
  then obtain n where n: "x = (path_append root n, Directory)"
    "(resolve root @ [n], Directory) \<in> set t" "starts_with n ''Backup_''"
    by auto
  from n(2) assms(1) have v: "valid_name n"
    by (auto simp: valid_fs_def list_all_iff)
  have "(path_append root (last (resolve root @ [n])), Directory)
          \<in> (\<lambda>(q, e). (path_append root (last q), e)) `
              {x \<in> set t. case x of (q, e) \<Rightarrow> q \<noteq> [] \<and> butlast q = resolve root}"
    using n(2) by (intro image_eqI [of _ _ "(resolve root @ [n], Directory)"]) auto
  then show "x \<in> set (snapshots root t)"
    using assms(2) n v by (simp add: snapshots_def directory_iterator_def filename_path_append)
qed

text \<open>
  Claim C9, amended. The catalog, as listing and retention see it, holds exactly the
  entries directly under the backup root that are directories and whose name starts
  with \<^verbatim>\<open>Backup_\<close>. Listing reports these and nothing else; retention (with a count
  of at least one) leaves every entry in place that is neither a catalog entry nor
  below one.
\<close>

theorem catalog_membership:
  assumes "valid_fs (fs w)" and "is_directory root (fs w)" and "1 \<le> m"
  shows "set (snapshots root (fs w))
           = {(path_append root n, Directory) | n.
                (resolve root @ [n], Directory) \<in> set (fs w) \<and> starts_with n ''Backup_''}
     \<and> list_backups (Some sz) root w
         = (Returns (),
            print (if snapshots root (fs w) = [] then [''No backups found in: '' @ quoted root]
                   else (''Available backups in '' @ quoted root @ '':'')
                          # map (\<lambda>backup. ''  '' @ filename (fst backup) @ '' (Size: ''
                                   @ show_nat sz @ '' bytes)'')
                              (rev (sort_key (\<lambda>b. filename (fst b)) (snapshots root (fs w)))))
              w)
     \<and> fst (cleanup_old_backups root m verb w) = Returns ()
     \<and> (\<forall>(q, e)\<in>set (fs w).
           (\<forall>b\<in>set (snapshots root (fs w)). \<not> prefix (resolve (fst b)) q)
           \<longrightarrow> (q, e) \<in> set (fs (snd (cleanup_old_backups root m verb w))))"
proof -
  let ?S = "snapshots root (fs w)"
  let ?evicted = "take (Suc (length ?S) - m) (sort_key (\<lambda>b. filename (fst b)) ?S)"
  have a: "set ?S = {(path_append root n, Directory) | n.
                (resolve root @ [n], Directory) \<in> set (fs w) \<and> starts_with n ''Backup_''}"
    by (rule snapshots_set [OF assms(1,2)])
  from assms(2) obtain entries where d: "directory_iterator root (fs w) = Some entries"
    by (simp add: directory_iterator_def)
  have S: "filter (\<lambda>entry. snd entry = Directory \<and> starts_with (filename (fst entry)) ''Backup_'') entries
             = ?S"
    using d by (simp add: snapshots_def)
  have e: "fs_exists root (fs w)"
    using assms(2) by (simp add: is_directory_def fs_exists_def)
  have b: "list_backups (Some sz) root w
         = (Returns (),
            print (if ?S = [] then [''No backups found in: '' @ quoted root]
                   else (''Available backups in '' @ quoted root @ '':'')
                          # map (\<lambda>backup. ''  '' @ filename (fst backup) @ '' (Size: ''
                                   @ show_nat sz @ '' bytes)'')
                              (rev (sort_key (\<lambda>b. filename (fst b)) ?S)))
              w)"
    by (simp add: list_backups_def e d S Let_def print_def)
  have ev: "set ?evicted \<subseteq> set ?S"
    using set_take_subset [of "Suc (length ?S) - m" "sort_key (\<lambda>b. filename (fst b)) ?S"] by simp
  have ne: "\<forall>b\<in>set ?evicted. fst b \<noteq> []"
  proof
    fix b assume "b \<in> set ?evicted"
    with ev have "b \<in> set ?S" by blast
    from snapshots_named [OF assms(1) this] obtain n where "valid_name n" "fst b = path_append root n"
      by blast
    then show "fst b \<noteq> []" using path_append_not_Nil [of n root] by simp
  qed
  have c: "cleanup_old_backups root m verb w
     = (Returns (),
        w\<lparr>fs := filter (\<lambda>(q, e). \<forall>b\<in>set ?evicted. \<not> prefix (resolve (fst b)) q) (fs w),
          cout := cout w @ (if verb
                            then map (\<lambda>b. ''Deleting old backup: '' @ quoted (filename (fst b)))
                                   ?evicted
                            else [])\<rparr>)"
    unfolding cleanup_old_backups_closed [OF assms(3,2)] foldl_remove_filter [OF ne] ..
  have k: "\<forall>(q, e)\<in>set (fs w).
           (\<forall>b\<in>set ?S. \<not> prefix (resolve (fst b)) q)
           \<longrightarrow> (q, e) \<in> set (fs (snd (cleanup_old_backups root m verb w)))"
    unfolding c using ev by auto
  from a b c k show ?thesis by simp
qed

theorem catalog_membership_witness:
  "valid_fs (fs (start_world stray_example))
   \<and> is_directory ''CopiedFiles'' (fs (start_world stray_example))
   \<and> list_backups (Some 0) ''CopiedFiles'' (start_world stray_example)
       = (Returns (),
          print [''Available backups in '' @ quoted ''CopiedFiles'' @ '':'',
                 ''  Backup_2024-01-01_00-00-00 (Size: 0 bytes)'']
            (start_world stray_example))
   \<and> ([''CopiedFiles'', ''Backup_notes.txt''], RegularFile ''a file'')
       \<in> set (fs (snd (cleanup_old_backups ''CopiedFiles'' 1 True (start_world stray_example))))
   \<and> ([''CopiedFiles'', ''misc''], Directory)
       \<in> set (fs (snd (cleanup_old_backups ''CopiedFiles'' 1 True (start_world stray_example))))"
proof -
  let ?w = "start_world stray_example"
  have v: "valid_fs (fs ?w)"
    by (simp add: valid_fs_def valid_name_def start_world_def stray_example_def)
  have d: "is_directory ''CopiedFiles'' (fs ?w)"
    by (simp add: start_world_def stray_example_def path_defs fs_defs)
  have m: "1 \<le> (1::nat)" by simp
  have s: "snapshots ''CopiedFiles'' (fs ?w)
             = [(''CopiedFiles/Backup_2024-01-01_00-00-00'', Directory)]"
    by (simp add: snapshots_def start_world_def stray_example_def starts_with_def path_defs fs_defs)
  have i: "([''CopiedFiles'', ''Backup_notes.txt''], RegularFile ''a file'') \<in> set (fs ?w)"
    "([''CopiedFiles'', ''misc''], Directory) \<in> set (fs ?w)"
    by (simp_all add: start_world_def stray_example_def)
  have p: "\<forall>b\<in>set (snapshots ''CopiedFiles'' (fs ?w)).
             \<not> prefix (resolve (fst b)) [''CopiedFiles'', ''Backup_notes.txt'']"
    "\<forall>b\<in>set (snapshots ''CopiedFiles'' (fs ?w)).
             \<not> prefix (resolve (fst b)) [''CopiedFiles'', ''misc'']"
    unfolding s by (simp_all add: path_defs)
  note t = catalog_membership [OF v d m, of 0 True]
  from t have l: "list_backups (Some 0) ''CopiedFiles'' ?w
       = (Returns (),
          print [''Available backups in '' @ quoted ''CopiedFiles'' @ '':'',
                 ''  Backup_2024-01-01_00-00-00 (Size: 0 bytes)''] ?w)"
    unfolding s by (simp add: show_nat.simps digit_char_def path_defs)
  from t have "\<forall>(q, e)\<in>set (fs ?w).
           (\<forall>b\<in>set (snapshots ''CopiedFiles'' (fs ?w)). \<not> prefix (resolve (fst b)) q)
           \<longrightarrow> (q, e) \<in> set (fs (snd (cleanup_old_backups ''CopiedFiles'' 1 True ?w)))"
    by blast
  with i p have
    "([''CopiedFiles'', ''Backup_notes.txt''], RegularFile ''a file'')
       \<in> set (fs (snd (cleanup_old_backups ''CopiedFiles'' 1 True ?w)))"
    "([''CopiedFiles'', ''misc''], Directory)
       \<in> set (fs (snd (cleanup_old_backups ''CopiedFiles'' 1 True ?w)))"
    by blast+
  with v d l show ?thesis by blast
qed

section \<open>The retention count in the configuration\<close>

lemma default_config_fields [simp]:
  "sourcePath default_config = []" "backupRoot default_config = ''CopiedFiles''"
  "configFile default_config = ''paths.txt''" "maxBackups default_config = 10"
  "interval default_config = 30" "daemon default_config = False"
  "instant default_config = False" "verbose default_config = False"
  "help_flag default_config = False" "listBackups default_config = False"
  "restoreBackup default_config = None" "deleteBackup default_config = None"
  by (simp_all add: default_config_def)

text \<open>
  The claim as stated in C4 fails: \<^verbatim>\<open>--max 0\<close> is parsed into the configuration like any
  other number, and the run goes on into the retention step with a count of zero.
\<close>

theorem max_zero_counterexample:
  "parse_arguments [''--max'', ''0'', ''--now'', ''--path'', ''src'']
     = Inr (default_config\<lparr>maxBackups := 0, instant := True, sourcePath := ''src''\<rparr>)
   \<and> main example_env ''FlameUp'' [''--max'', ''0'', ''--now'', ''--path'', ''src'']
         (start_world ready_tree) = (Crash, start_world ready_tree)"
proof -
  let ?config = "default_config\<lparr>maxBackups := 0, instant := True, sourcePath := ''src''\<rparr>"
  let ?args = "[''--max'', ''0'', ''--now'', ''--path'', ''src'']"
  have p: "parse_arguments ?args = Inr ?config"
    by (simp add: parse_defs)
  have r: "create_readme_file (start_world ready_tree) = start_world ready_tree"
    by (simp add: create_readme_file_def start_world_def ready_tree_def path_defs fs_defs)
  have e: "fs_exists (backupRoot ?config) (fs (create_readme_file (start_world ready_tree)))"
    unfolding r by (simp add: start_world_def ready_tree_def path_defs fs_defs)
  have b: "perform_backup ?config (localtime_now example_env) (start_world ready_tree)
             = (Undefined, start_world ready_tree)"
    by (simp add: eval_defs default_config_def start_world_def ready_tree_def)
  have "main example_env ''FlameUp'' ?args (start_world ready_tree)
          = main_operation example_env ''FlameUp'' ?args ?config (start_world ready_tree)"
    using main_to_operation [OF p _ disjI2 [OF e], of example_env "''FlameUp''"] r by simp
  also have "\<dots> = (Crash, start_world ready_tree)"
    unfolding main_operation_def using b by simp
  finally show ?thesis using p by simp
qed

text \<open>
  Claim C4, amended. A retention count of 0 is not rejected when the configuration
  is made: \<^verbatim>\<open>parse_arguments\<close> stores the number that \<^verbatim>\<open>std::stoul\<close> reads after \<^verbatim>\<open>--max\<close>,
  whatever it is, \<^verbatim>\<open>main\<close> hands the configuration to \<^verbatim>\<open>perform_backup\<close> as parsed, and
  \<^verbatim>\<open>perform_backup\<close> calls the retention step with that count (it ends in undefined
  behaviour exactly when that call does). So the retention step is invoked with the
  configured count, 0 included.
\<close>

theorem max_count_unchecked:
  assumes "stoul v = Inr n"
    and "fs_exists ''CopiedFiles'' (fs (create_readme_file w))"
    and "(if sourcePath config \<noteq> [] then Inr (sourcePath config)
          else read_path_from_file (configFile config) (fs w')) = Inr src"
    and "is_directory src (fs w')"
  shows "parse_arguments [''--max'', v, ''--now'']
           = Inr (default_config\<lparr>maxBackups := n, instant := True\<rparr>)
     \<and> main env prog [''--max'', v, ''--now''] w
         = (case perform_backup (default_config\<lparr>maxBackups := n, instant := True\<rparr>)
                  (localtime_now env) (create_readme_file w) of
              (Returns ok, w1) \<Rightarrow> (Exit (if ok then 0 else 1), w1)
            | (Throws what, w1) \<Rightarrow> (Exit 1, eprint [''Error: '' @ what] w1)
            | (Undefined, w1) \<Rightarrow> (Crash, w1))
     \<and> (fst (perform_backup config localtime w') = Undefined
          \<longleftrightarrow> fst (cleanup_old_backups (backupRoot config) (maxBackups config) (verbose config) w')
                = Undefined)"
proof -
  have p: "parse_arguments [''--max'', v, ''--now'']
           = Inr (default_config\<lparr>maxBackups := n, instant := True\<rparr>)"
    using assms(1) by (simp add: parse_arguments_def)
  have m: "main env prog [''--max'', v, ''--now''] w
         = (case perform_backup (default_config\<lparr>maxBackups := n, instant := True\<rparr>)
                  (localtime_now env) (create_readme_file w) of
              (Returns ok, w1) \<Rightarrow> (Exit (if ok then 0 else 1), w1)
            | (Throws what, w1) \<Rightarrow> (Exit 1, eprint [''Error: '' @ what] w1)
            | (Undefined, w1) \<Rightarrow> (Crash, w1))"
    unfolding main_def p using assms(2)
    by (simp add: main_operation_def default_config_def Let_def)
  have e: "fs_exists src (fs w')"
    using assms(4) by (simp add: is_directory_def fs_exists_def)
  have c: "fst (perform_backup config localtime w') = Undefined
          \<longleftrightarrow> fst (cleanup_old_backups (backupRoot config) (maxBackups config) (verbose config) w')
                = Undefined"
    unfolding perform_backup_def assms(3) using assms(4) e
    by (auto simp: Let_def split: prod.splits outcome.splits bool.splits)
  from p m c show ?thesis by blast
qed

theorem max_count_unchecked_witness:
  "stoul ''0'' = Inr 0
   \<and> parse_arguments [''--max'', ''0'', ''--now'']
       = Inr (default_config\<lparr>maxBackups := 0, instant := True\<rparr>)
   \<and> main example_env ''FlameUp'' [''--max'', ''0'', ''--now''] (start_world ready_tree)
       = (case perform_backup (default_config\<lparr>maxBackups := 0, instant := True\<rparr>)
                (localtime_now example_env) (create_readme_file (start_world ready_tree)) of
            (Returns ok, w1) \<Rightarrow> (Exit (if ok then 0 else 1), w1)
          | (Throws what, w1) \<Rightarrow> (Exit 1, eprint [''Error: '' @ what] w1)
          | (Undefined, w1) \<Rightarrow> (Crash, w1))"
proof -
  have a: "stoul ''0'' = Inr 0"
    by (simp add: parse_defs)
  have b: "fs_exists ''CopiedFiles'' (fs (create_readme_file (start_world ready_tree)))"
    by (simp add: create_readme_file_def start_world_def ready_tree_def path_defs fs_defs)
  have c: "(if sourcePath (default_config\<lparr>sourcePath := ''src''\<rparr>) \<noteq> []
            then Inr (sourcePath (default_config\<lparr>sourcePath := ''src''\<rparr>))
            else read_path_from_file (configFile (default_config\<lparr>sourcePath := ''src''\<rparr>))
                   (fs (start_world ready_tree))) = Inr ''src''"
    by simp
  have d: "is_directory ''src'' (fs (start_world ready_tree))"
    by (simp add: start_world_def ready_tree_def path_defs fs_defs)
  from max_count_unchecked [OF a b c d, of example_env "''FlameUp''"] a
  show ?thesis by blast
qed

section \<open>The daemon loop\<close>

lemma cleanup_loop_clock:
  "steady_clock (snd (cleanup_loop bs m verb w)) = steady_clock w"
proof (induction bs arbitrary: w)
  case Nil
  show ?case by simp
next
  case (Cons b bs)
  obtain ok t where r: "remove_all (fst b) (fs w) = (ok, t)"
    by (cases "remove_all (fst b) (fs w)")
  show ?case
    using Cons.IH [of "(if verb then print [''Deleting old backup: '' @ quoted (filename (fst b))] w
                        else w)\<lparr>fs := t\<rparr>"]
    by (cases ok) (simp_all add: r print_def)
qed

lemma cleanup_old_backups_clock:
  "steady_clock (snd (cleanup_old_backups root m verb w)) = steady_clock w"
  by (cases "directory_iterator root (fs w)")
     (simp_all add: cleanup_old_backups_def Let_def cleanup_loop_clock)

lemma perform_backup_cases:
  obtains
    (failed) w' where "perform_backup config localtime w = (Returns False, w')"
      "steady_clock w' = steady_clock w"
  | (undefined) w' where "perform_backup config localtime w = (Undefined, w')"
      "steady_clock w' = steady_clock w"
      "fst (cleanup_old_backups (backupRoot config) (maxBackups config) (verbose config) w)
         = Undefined"
  | (created) w' where "perform_backup config localtime w = (Returns True, w')"
      "steady_clock w' = steady_clock w"
proof (cases "if sourcePath config \<noteq> [] then Inr (sourcePath config)
              else read_path_from_file (configFile config) (fs w)")
  case (Inl what)
  then have "perform_backup config localtime w
               = (Returns False, eprint [''Error during backup: '' @ what] w)"
    by (simp add: perform_backup_def)
  then show ?thesis by (rule failed) (simp add: eprint_def)
next
  case (Inr src)
  show ?thesis
  proof (cases "\<not> fs_exists src (fs w) \<or> \<not> is_directory src (fs w)")
    case True
    with Inr have "perform_backup config localtime w
        = (Returns False, eprint [''Warning: Source directory does not exist: '' @ quoted src] w)"
      by (simp add: perform_backup_def)
    then show ?thesis by (rule failed) (simp add: eprint_def)
  next
    case False
    obtain r w1 where c: "cleanup_old_backups (backupRoot config) (maxBackups config) (verbose config) w
                            = (r, w1)"
      by (cases "cleanup_old_backups (backupRoot config) (maxBackups config) (verbose config) w")
    then have k: "steady_clock w1 = steady_clock w"
      using cleanup_old_backups_clock [of "backupRoot config" "maxBackups config" "verbose config" w]
      by simp
    show ?thesis
    proof (cases r)
      case Undefined
      with Inr False c have "perform_backup config localtime w = (Undefined, w1)"
        by (simp add: perform_backup_def)
      then show ?thesis using k by (rule undefined) (simp add: c Undefined)
    next
      case (Throws what)
      with Inr False c have "perform_backup config localtime w
          = (Returns False, eprint [''Error during backup: '' @ what] w1)"
        by (simp add: perform_backup_def)
      then show ?thesis by (rule failed) (simp add: eprint_def k)
    next
      case (Returns u)
      define w2 where "w2 = (if verbose config
                            then print [''Backing up: '' @ quoted src @ '' -> ''
                                          @ quoted (path_append (backupRoot config)
                                                      (make_timestamp_folder_name localtime))] w1
                            else w1)"
      obtain ok t where cp: "copy src (path_append (backupRoot config)
                                 (make_timestamp_folder_name localtime)) (fs w2) = (ok, t)"
        by (cases "copy src (path_append (backupRoot config)
                                 (make_timestamp_folder_name localtime)) (fs w2)")
      have k2: "steady_clock w2 = steady_clock w" by (simp add: w2_def print_def k)
      show ?thesis
      proof (cases ok)
        case True
        with Inr False c Returns cp have "perform_backup config localtime w
          = (Returns True, print [check_mark @ '' Created backup: ''
                                    @ make_timestamp_folder_name localtime] (w2\<lparr>fs := t\<rparr>))"
          by (simp add: perform_backup_def Let_def w2_def)
        then show ?thesis by (rule created) (simp add: print_def k2)
      next
        case f: False
        with Inr False c Returns cp have "perform_backup config localtime w
          = (Returns False, eprint [''Error during backup: '' @ fs_error ''copy''] (w2\<lparr>fs := t\<rparr>))"
          by (simp add: perform_backup_def Let_def w2_def)
        then show ?thesis by (rule failed) (simp add: eprint_def k2)
      qed
    qed
  qed
qed

lemma perform_backup_clock:
  "steady_clock (snd (perform_backup config localtime w)) = steady_clock w"
  by (cases rule: perform_backup_cases [of config localtime w]) simp_all

lemma perform_backup_no_throw: "fst (perform_backup config localtime w) \<noteq> Throws what"
  by (cases rule: perform_backup_cases [of config localtime w]) simp_all

lemma daemon_cycle_no_throw: "fst (daemon_cycle config inp w) \<noteq> Throws what"
proof -
  define w1 where "w1 = (if verbose config then print [[], ''--- Starting backup cycle ---''] w else w)"
  show ?thesis
  proof (cases rule: perform_backup_cases [of config "local_time inp" w1])
    case (failed w')
    then show ?thesis by (simp add: daemon_cycle_def Let_def w1_def)
  next
    case (undefined w')
    then show ?thesis by (simp add: daemon_cycle_def Let_def w1_def)
  next
    case (created w')
    then show ?thesis by (simp add: daemon_cycle_def Let_def w1_def)
  qed
qed

lemma daemon_loop_no_exit: "fst (daemon_loop config inps w) \<noteq> Exit code"
proof (induction inps arbitrary: w)
  case Nil
  show ?case by simp
next
  case (Cons inp inps)
  obtain r w' where c: "daemon_cycle config inp w = (r, w')"
    by (cases "daemon_cycle config inp w")
  show ?case
  proof (cases r)
    case (Returns u)
    with c Cons.IH [of w'] show ?thesis by simp
  next
    case (Throws what)
    with c daemon_cycle_no_throw [of config inp w what] show ?thesis by simp
  next
    case Undefined
    with c show ?thesis by simp
  qed
qed

lemma print_fields:
  "fs (print ls w) = fs w" "cout (print ls w) = cout w @ ls" "cerr (print ls w) = cerr w"
  "steady_clock (print ls w) = steady_clock w"
  "fs (eprint ls w) = fs w" "cout (eprint ls w) = cout w" "cerr (eprint ls w) = cerr w @ ls"
  "steady_clock (eprint ls w) = steady_clock w"
  by (simp_all add: print_def eprint_def)

lemma cleanup_loop_defined: "1 \<le> m \<Longrightarrow> fst (cleanup_loop bs m verb w) \<noteq> Undefined"
proof (induction bs arbitrary: w)
  case Nil
  then show ?case by simp
next
  case (Cons b bs)
  obtain ok t where r: "remove_all (fst b) (fs w) = (ok, t)"
    by (cases "remove_all (fst b) (fs w)")
  show ?case
    using Cons.IH [OF Cons.prems,
        of "(if verb then print [''Deleting old backup: '' @ quoted (filename (fst b))] w
             else w)\<lparr>fs := t\<rparr>"]
    by (cases ok) (simp_all add: r)
qed

lemma perform_backup_defined:
  assumes "1 \<le> maxBackups config"
  shows "fst (perform_backup config localtime w) \<noteq> Undefined"
proof (cases rule: perform_backup_cases [of config localtime w])
  case (failed w')
  then show ?thesis by simp
next
  case (undefined w')
  have "fst (cleanup_old_backups (backupRoot config) (maxBackups config) (verbose config) w)
          \<noteq> Undefined"
    using cleanup_loop_defined [OF assms]
    by (cases "directory_iterator (backupRoot config) (fs w)")
       (simp_all add: cleanup_old_backups_def Let_def)
  with undefined(3) show ?thesis by simp
next
  case (created w')
  then show ?thesis by simp
qed

lemma daemon_cycle_pass:
  assumes pb: "perform_backup config (local_time inp)
             (if verbose config then print [[], ''--- Starting backup cycle ---''] w else w)
           = (Returns success, w')"
    and i1: "i64 (interval config * ticks_per_minute)"
    and i2: "i64 (steady_clock w + interval config * ticks_per_minute)"
    and nx: "next = steady_clock w + interval config * ticks_per_minute"
    and nw: "now = steady_clock w + int (elapsed inp)"
  shows "fst (daemon_cycle config inp w) = Returns ()
     \<and> steady_clock (snd (daemon_cycle config inp w)) = (if next > now then next else now)
     \<and> fs (snd (daemon_cycle config inp w)) = fs w'
     \<and> cout (snd (daemon_cycle config inp w))
         = cout w'
           @ (if success then (if verbose config then [''Backup completed successfully.''] else [])
              else [''Backup failed, will retry in '' @ show_int (interval config) @ '' minutes.''])
           @ (if verbose config \<and> next > now
              then [''Next backup in '' @ show_int ((next - now) div ticks_per_minute)
                      @ '' minutes...'']
              else [])"
proof -
  have k: "steady_clock w' = steady_clock w"
    using perform_backup_clock [of config "local_time inp"
        "if verbose config then print [[], ''--- Starting backup cycle ---''] w else w"]
    by (simp add: pb print_fields)
  have d: "i64 (next - now)" if "next > now"
    using that i1 unfolding nx nw i64_def by simp
  show ?thesis
  proof (cases "next > now")
    case True
    with d have "i64 (next - now)" by simp
    with True i1 i2 show ?thesis
      using nx nw k
      by (simp add: daemon_cycle_def Let_def pb print_fields)
  next
    case False
    with i1 i2 show ?thesis
      using nx nw k
      by (simp add: daemon_cycle_def Let_def pb print_fields)
  qed
qed

lemma daemon_loop_step:
  "fst (daemon_cycle config inp w) = Returns ()
     \<Longrightarrow> daemon_loop config (inp # inps) w = daemon_loop config inps (snd (daemon_cycle config inp w))"
  by (cases "daemon_cycle config inp w") simp

lemma daemon_loop_running:
  assumes "1 \<le> maxBackups config" and "0 \<le> interval config"
    and "0 \<le> steady_clock w"
    and "steady_clock w
           + sum_list (map (\<lambda>inp. max (interval config * ticks_per_minute) (int (elapsed inp))) inps)
         < 2 ^ 63"
  shows "fst (daemon_loop config inps w) = Running"
  using assms(3,4)
proof (induction inps arbitrary: w)
  case Nil
  show ?case by simp
next
  case (Cons inp inps)
  let ?I = "interval config * ticks_per_minute"
  let ?f = "\<lambda>inp. max ?I (int (elapsed inp))"
  let ?w1 = "if verbose config then print [[], ''--- Starting backup cycle ---''] w else w"
  have I: "0 \<le> ?I" using assms(2) by (simp add: ticks_per_minute_def)
  have rest: "0 \<le> sum_list (map ?f inps)"
    by (rule sum_list_nonneg) auto
  have bound: "steady_clock w + max ?I (int (elapsed inp)) + sum_list (map ?f inps) < 2 ^ 63"
    using Cons.prems(2) by simp
  obtain r w' where pb: "perform_backup config (local_time inp) ?w1 = (r, w')"
    by (cases "perform_backup config (local_time inp) ?w1")
  from perform_backup_defined [OF assms(1), of "local_time inp" ?w1]
    perform_backup_no_throw [of config "local_time inp" ?w1]
  obtain success where r: "r = Returns success"
    using pb by (cases r) auto
  have i1: "i64 ?I" and i2: "i64 (steady_clock w + ?I)"
    using I Cons.prems(1) bound rest by (auto simp: i64_def)
  note p = daemon_cycle_pass [OF pb [unfolded r] i1 i2 refl refl]
  let ?w2 = "snd (daemon_cycle config inp w)"
  from p have c: "steady_clock ?w2 = steady_clock w + max ?I (int (elapsed inp))"
    by (auto simp: max_def)
  have "fst (daemon_loop config inps ?w2) = Running"
  proof (rule Cons.IH)
    show "0 \<le> steady_clock ?w2" using c I Cons.prems(1) by simp
    show "steady_clock ?w2 + sum_list (map ?f inps) < 2 ^ 63"
      using c bound by simp
  qed
  moreover from p have "fst (daemon_cycle config inp w) = Returns ()" by simp
  ultimately show ?case by (simp only: daemon_loop_step)
qed

text \<open>
  Claim C6. In daemon mode a pass of the loop whose backup step returns, with success
  or with failure, takes \<open>start + interval\<close> as the next instant: when that is still
  ahead of the clock the loop sleeps until it, and when the pass took longer the loop
  goes on at once, the next pass starting from the clock as it is (no pass is run to
  catch up). A failed backup is reported on the output, and the loop goes on with the
  next pass from the state that this pass has left. No sequence of passes makes the
  loop exit, and with a retention count of at least one and an interval that is not
  negative the loop is still running after every sequence of passes. (The additions on
  the clock are taken not to overflow its 64 bits.)
\<close>

theorem daemon_cycle_schedule:
  assumes "perform_backup config (local_time inp)
             (if verbose config then print [[], ''--- Starting backup cycle ---''] w else w)
           = (Returns success, w')"
    and "i64 (interval config * ticks_per_minute)"
    and "i64 (steady_clock w + interval config * ticks_per_minute)"
    and "next = steady_clock w + interval config * ticks_per_minute"
    and "now = steady_clock w + int (elapsed inp)"
  shows "fst (daemon_cycle config inp w) = Returns ()
     \<and> steady_clock (snd (daemon_cycle config inp w)) = (if next > now then next else now)
     \<and> fs (snd (daemon_cycle config inp w)) = fs w'
     \<and> cout (snd (daemon_cycle config inp w))
         = cout w'
           @ (if success then (if verbose config then [''Backup completed successfully.''] else [])
              else [''Backup failed, will retry in '' @ show_int (interval config) @ '' minutes.''])
           @ (if verbose config \<and> next > now
              then [''Next backup in '' @ show_int ((next - now) div ticks_per_minute)
                      @ '' minutes...'']
              else [])
     \<and> daemon_loop config (inp # inps) w
         = daemon_loop config inps (snd (daemon_cycle config inp w))
     \<and> fst (daemon_loop config passes w0) \<noteq> Exit code
     \<and> (1 \<le> maxBackups config \<and> 0 \<le> interval config \<and> 0 \<le> steady_clock w0
          \<and> steady_clock w0
               + sum_list (map (\<lambda>inp. max (interval config * ticks_per_minute) (int (elapsed inp)))
                            passes) < 2 ^ 63
        \<longrightarrow> fst (daemon_loop config passes w0) = Running)"
proof -
  note p = daemon_cycle_pass [OF assms]
  then have "fst (daemon_cycle config inp w) = Returns ()" by simp
  then have "daemon_loop config (inp # inps) w
               = daemon_loop config inps (snd (daemon_cycle config inp w))"
    by (rule daemon_loop_step)
  moreover note daemon_loop_no_exit [of config passes w0 code]
  moreover have "fst (daemon_loop config passes w0) = Running"
    if "1 \<le> maxBackups config \<and> 0 \<le> interval config \<and> 0 \<le> steady_clock w0
          \<and> steady_clock w0
               + sum_list (map (\<lambda>inp. max (interval config * ticks_per_minute) (int (elapsed inp)))
                            passes) < 2 ^ 63"
    using that by (intro daemon_loop_running) simp_all
  ultimately show ?thesis using p by blast
qed

theorem daemon_cycle_schedule_witness:
  "fst (daemon_cycle (default_config\<lparr>sourcePath := ''missing'', daemon := True\<rparr>)
          \<lparr>local_time = Some example_time, elapsed = 1000\<rparr> (start_world ready_tree)) = Returns ()
   \<and> steady_clock (snd (daemon_cycle (default_config\<lparr>sourcePath := ''missing'', daemon := True\<rparr>)
          \<lparr>local_time = Some example_time, elapsed = 1000\<rparr> (start_world ready_tree)))
       = 1800000000000
   \<and> cout (snd (daemon_cycle (default_config\<lparr>sourcePath := ''missing'', daemon := True\<rparr>)
          \<lparr>local_time = Some example_time, elapsed = 1000\<rparr> (start_world ready_tree)))
       = [''Backup failed, will retry in 30 minutes.'']
   \<and> fst (daemon_loop (default_config\<lparr>sourcePath := ''missing'', daemon := True\<rparr>)
          [\<lparr>local_time = Some example_time, elapsed = 1000\<rparr>,
           \<lparr>local_time = Some example_time, elapsed = 2000000000000\<rparr>]
          (start_world ready_tree)) = Running
   \<and> steady_clock (snd (daemon_loop (default_config\<lparr>sourcePath := ''missing'', daemon := True\<rparr>)
          [\<lparr>local_time = Some example_time, elapsed = 1000\<rparr>,
           \<lparr>local_time = Some example_time, elapsed = 2000000000000\<rparr>]
          (start_world ready_tree)))
       = 3800000000000
   \<and> cout (snd (daemon_loop (default_config\<lparr>sourcePath := ''missing'', daemon := True\<rparr>)
          [\<lparr>local_time = Some example_time, elapsed = 1000\<rparr>,
           \<lparr>local_time = Some example_time, elapsed = 2000000000000\<rparr>]
          (start_world ready_tree)))
       = [''Backup failed, will retry in 30 minutes.'',
          ''Backup failed, will retry in 30 minutes.'']"
proof -
  let ?config = "default_config\<lparr>sourcePath := ''missing'', daemon := True\<rparr>"
  let ?w = "start_world ready_tree"
  let ?i1 = "\<lparr>local_time = Some example_time, elapsed = 1000\<rparr>"
  let ?i2 = "\<lparr>local_time = Some example_time, elapsed = 2000000000000\<rparr>"
  define w2 where "w2 = snd (daemon_cycle ?config ?i1 ?w)"
  have pb: "perform_backup ?config (local_time inp)
             (if verbose ?config then print [[], ''--- Starting backup cycle ---''] v else v)
           = (Returns False,
              eprint [''Warning: Source directory does not exist: '' @ quoted ''missing''] v)"
    if "fs v = ready_tree" for inp v
    using that by (simp add: perform_backup_def ready_tree_def path_defs fs_defs)
  have f: "fs ?w = ready_tree" by (simp add: start_world_def)
  have i: "i64 (interval ?config * ticks_per_minute)"
    "i64 (steady_clock ?w + interval ?config * ticks_per_minute)"
    by (simp_all add: i64_def ticks_per_minute_def start_world_def)
  have run: "1 \<le> maxBackups ?config \<and> 0 \<le> interval ?config \<and> 0 \<le> steady_clock ?w
          \<and> steady_clock ?w
               + sum_list (map (\<lambda>inp. max (interval ?config * ticks_per_minute) (int (elapsed inp)))
                            [?i1, ?i2]) < 2 ^ 63"
    by (simp add: ticks_per_minute_def start_world_def)
  note a = daemon_cycle_schedule [OF pb [OF f] i refl refl, of ?i1 "[?i2]" "[?i1, ?i2]" ?w 1]
  from a have a1: "fst (daemon_cycle ?config ?i1 ?w) = Returns ()"
    and a2: "steady_clock w2 = 1800000000000"
    and a3: "fs w2 = ready_tree"
    and a4: "cout w2 = [''Backup failed, will retry in 30 minutes.'']"
    and a5: "daemon_loop ?config [?i1, ?i2] ?w = daemon_loop ?config [?i2] w2"
    unfolding w2_def
    by (simp_all add: ticks_per_minute_def start_world_def print_fields show_int_def
        show_nat.simps digit_char_def)
  from a run have a6: "fst (daemon_loop ?config [?i1, ?i2] ?w) = Running" by blast
  have j: "i64 (interval ?config * ticks_per_minute)"
    "i64 (steady_clock w2 + interval ?config * ticks_per_minute)"
    by (simp_all add: i64_def ticks_per_minute_def a2)
  note b = daemon_cycle_schedule [OF pb [OF a3] j refl refl, of ?i2 "[]" "[]" ?w 0]
  from b have b1: "steady_clock (snd (daemon_cycle ?config ?i2 w2)) = 3800000000000"
    and b2: "cout (snd (daemon_cycle ?config ?i2 w2))
               = [''Backup failed, will retry in 30 minutes.'',
                  ''Backup failed, will retry in 30 minutes.'']"
    and b3: "daemon_loop ?config [?i2] w2 = (Running, snd (daemon_cycle ?config ?i2 w2))"
    by (simp_all add: ticks_per_minute_def a2 a4 print_fields show_int_def
        show_nat.simps digit_char_def)
  from a1 a2 a4 a5 a6 b1 b2 b3 show ?thesis
    unfolding w2_def by simp
qed

section \<open>The order of the names\<close>

lemma length_digits [simp]: "length (digits k n) = k"
  by (induction k arbitrary: n) auto

lemma append_less_same_length:
  fixes a b :: string
  assumes "length a = length b"
  shows "a @ x < b @ y \<longleftrightarrow> a < b \<or> a = b \<and> x < y"
  using assms by (induction a b rule: list_induct2) auto

lemma digit_char_less: "a < 10 \<Longrightarrow> b < 10 \<Longrightarrow> digit_char a < digit_char b \<longleftrightarrow> a < b"
  by (simp add: less_char_def of_char_digit_char)

lemma digit_char_eq: "a < 10 \<Longrightarrow> b < 10 \<Longrightarrow> digit_char a = digit_char b \<longleftrightarrow> a = b"
  by (metis of_char_digit_char add_left_cancel)

lemma lex10:
  fixes a b r s :: nat
  assumes "r < 10" "s < 10"
  shows "(a < b \<or> a = b \<and> r < s) \<longleftrightarrow> 10 * a + r < 10 * b + s"
    and "(a = b \<and> r = s) \<longleftrightarrow> 10 * a + r = 10 * b + s"
  using assms by arith+

lemma digits_order:
  "n < 10 ^ k \<Longrightarrow> m < 10 ^ k \<Longrightarrow>
   (digits k n < digits k m \<longleftrightarrow> n < m) \<and> (digits k n = digits k m \<longleftrightarrow> n = m)"
proof (induction k arbitrary: n m)
  case 0
  then show ?case by simp
next
  case (Suc k)
  then have d: "n div 10 < 10 ^ k" "m div 10 < 10 ^ k" by auto
  note ih = Suc.IH [OF d]
  have l: "digits (Suc k) n < digits (Suc k) m
       \<longleftrightarrow> n div 10 < m div 10 \<or> n div 10 = m div 10 \<and> n mod 10 < m mod 10"
    using ih by (simp add: append_less_same_length digit_char_less)
  have e: "digits (Suc k) n = digits (Suc k) m \<longleftrightarrow> n div 10 = m div 10 \<and> n mod 10 = m mod 10"
    using ih by (simp add: digit_char_eq)
  have "n div 10 < m div 10 \<or> n div 10 = m div 10 \<and> n mod 10 < m mod 10
          \<longleftrightarrow> 10 * (n div 10) + n mod 10 < 10 * (m div 10) + m mod 10"
    by (rule lex10) simp_all
  then have "n div 10 < m div 10 \<or> n div 10 = m div 10 \<and> n mod 10 < m mod 10 \<longleftrightarrow> n < m"
    by simp
  moreover have "n div 10 = m div 10 \<and> n mod 10 = m mod 10
          \<longleftrightarrow> 10 * (n div 10) + n mod 10 = 10 * (m div 10) + m mod 10"
    by (rule lex10) simp_all
  then have "n div 10 = m div 10 \<and> n mod 10 = m mod 10 \<longleftrightarrow> n = m"
    by simp
  ultimately show ?case using l e by simp
qed

lemma digits_2: "digits 2 n = [digit_char (n div 10 mod 10), digit_char (n mod 10)]"
proof -
  have "(2::nat) = Suc (Suc 0)" by simp
  then show ?thesis by (simp only: digits.simps append_Nil append_Cons)
qed

lemma digits_4:
  "digits 4 n = [digit_char (n div 10 div 10 div 10 mod 10), digit_char (n div 10 div 10 mod 10),
                 digit_char (n div 10 mod 10), digit_char (n mod 10)]"
proof -
  have "(4::nat) = Suc (Suc (Suc (Suc 0)))" by simp
  then show ?thesis by (simp only: digits.simps append_Nil append_Cons)
qed

lemma show_nat_small: "n < 10 \<Longrightarrow> show_nat n = [digit_char n]"
  by (subst show_nat.simps) simp

lemma show_nat_step: "10 \<le> n \<Longrightarrow> show_nat n = show_nat (n div 10) @ [digit_char (n mod 10)]"
  by (subst show_nat.simps) simp

lemma div10_bounds:
  assumes "10 * l \<le> n" and "n < 10 * u"
  shows "l \<le> n div 10 \<and> n div 10 < (u::nat)"
proof -
  have "10 * l div 10 \<le> n div 10" using assms(1) by (rule div_le_mono)
  then have "l \<le> n div 10" by simp
  moreover have "n div 10 < u"
    using assms(2) less_mult_imp_div_less [of n u 10] by (simp add: mult.commute)
  ultimately show ?thesis by simp
qed

lemma show_nat_digits_4: "1000 \<le> n \<Longrightarrow> n \<le> 9999 \<Longrightarrow> show_nat n = digits 4 n"
proof -
  assume n: "1000 \<le> n" "n \<le> 9999"
  define a where "a = n div 10"
  define b where "b = a div 10"
  define c where "c = b div 10"
  have a: "100 \<le> a \<and> a < 1000"
    unfolding a_def using n by (intro div10_bounds) simp_all
  then have b: "10 \<le> b \<and> b < 100"
    unfolding b_def by (intro div10_bounds) simp_all
  then have c: "1 \<le> c \<and> c < 10"
    unfolding c_def by (intro div10_bounds) simp_all
  have "show_nat n = show_nat a @ [digit_char (n mod 10)]"
    unfolding a_def using n by (intro show_nat_step) simp
  also have "show_nat a = show_nat b @ [digit_char (a mod 10)]"
    unfolding b_def using a by (intro show_nat_step) simp
  also have "show_nat b = show_nat c @ [digit_char (b mod 10)]"
    unfolding c_def using b by (intro show_nat_step) simp
  also have "show_nat c = [digit_char c]"
    using c by (intro show_nat_small) simp
  finally have s: "show_nat n = [digit_char c, digit_char (b mod 10), digit_char (a mod 10),
                                 digit_char (n mod 10)]"
    by simp
  have "c mod 10 = c" using c by simp
  then have "digits 4 n = [digit_char c, digit_char (b mod 10), digit_char (a mod 10),
                           digit_char (n mod 10)]"
    unfolding digits_4 a_def b_def c_def by simp
  with s show ?thesis by simp
qed

lemma pad2_digits: "0 \<le> i \<Longrightarrow> i \<le> 99 \<Longrightarrow> pad2 i = digits 2 (nat i)"
proof -
  assume i: "0 \<le> i" "i \<le> 99"
  define n where "n = nat i"
  define a where "a = n div 10"
  have n: "n \<le> 99" using i by (simp add: n_def)
  have a: "a < 10" unfolding a_def using n by (simp add: less_mult_imp_div_less)
  then have am: "a mod 10 = a" by simp
  have d: "digits 2 n = [digit_char a, digit_char (n mod 10)]"
    unfolding digits_2 using am by (simp add: a_def)
  show ?thesis
  proof (cases "i < 10")
    case True
    then have n10: "n < 10" using i by (simp add: n_def)
    then have "a = 0" by (simp add: a_def)
    moreover have "CHR ''0'' = digit_char 0" by (simp add: digit_char_def)
    ultimately show ?thesis
      using True n10 d by (simp add: pad2_def n_def [symmetric] show_nat_small)
  next
    case False
    then have n10: "10 \<le> n" using i by (simp add: n_def)
    have "show_nat n = show_nat a @ [digit_char (n mod 10)]"
      unfolding a_def using n10 by (rule show_nat_step)
    also have "show_nat a = [digit_char a]" using a by (rule show_nat_small)
    finally show ?thesis
      using False d by (simp add: pad2_def n_def [symmetric])
  qed
qed

lemma digits_less: "n < 10 ^ k \<Longrightarrow> m < 10 ^ k \<Longrightarrow> digits k n < digits k m \<longleftrightarrow> n < m"
  using digits_order by blast

lemma digits_eq: "n < 10 ^ k \<Longrightarrow> m < 10 ^ k \<Longrightarrow> digits k n = digits k m \<longleftrightarrow> n = m"
  using digits_order by blast

lemma block_less:
  fixes A B :: string
  assumes "length A = length B"
  shows "A @ c # X < B @ c # Y \<longleftrightarrow> A < B \<or> A = B \<and> X < Y"
  using append_less_same_length [OF assms, of "c # X" "c # Y"] by simp

lemma name_digits:
  assumes "tm_valid t"
  shows "make_timestamp_folder_name (Some t)
    = ''Backup_'' @ digits 4 (nat (tm_year t + 1900)) @ CHR ''-'' # digits 2 (nat (tm_mon t + 1))
        @ CHR ''-'' # digits 2 (nat (tm_mday t)) @ CHR ''_'' # digits 2 (nat (tm_hour t))
        @ CHR ''-'' # digits 2 (nat (tm_min t)) @ CHR ''-'' # digits 2 (nat (tm_sec t))"
proof -
  from assms have "show_nat (nat (tm_year t + 1900)) = digits 4 (nat (tm_year t + 1900))"
    by (intro show_nat_digits_4) (auto simp: tm_valid_def)
  moreover from assms have "pad2 (tm_mon t + 1) = digits 2 (nat (tm_mon t + 1))"
    "pad2 (tm_mday t) = digits 2 (nat (tm_mday t))" "pad2 (tm_hour t) = digits 2 (nat (tm_hour t))"
    "pad2 (tm_min t) = digits 2 (nat (tm_min t))" "pad2 (tm_sec t) = digits 2 (nat (tm_sec t))"
    by (auto simp: tm_valid_def intro!: pad2_digits)
  ultimately show ?thesis
    by (simp add: make_timestamp_folder_name_def put_time_def)
qed

text \<open>
  Claim C3. The name is a function of the local time alone, and for two local times
  that differ, to the second, the name of the earlier one is less than the name of
  the later one as a string. (The times are broken-down local times as the program
  formats them, with years of four digits.)
\<close>

theorem name_order:
  assumes "tm_valid t1" and "tm_valid t2" and "tm_before t1 t2"
  shows "make_timestamp_folder_name (Some t1) < make_timestamp_folder_name (Some t2)"
proof -
  define y1 y2 where "y1 = nat (tm_year t1 + 1900)" and "y2 = nat (tm_year t2 + 1900)"
  define m1 m2 where "m1 = nat (tm_mon t1 + 1)" and "m2 = nat (tm_mon t2 + 1)"
  define d1 d2 where "d1 = nat (tm_mday t1)" and "d2 = nat (tm_mday t2)"
  define h1 h2 where "h1 = nat (tm_hour t1)" and "h2 = nat (tm_hour t2)"
  define i1 i2 where "i1 = nat (tm_min t1)" and "i2 = nat (tm_min t2)"
  define s1 s2 where "s1 = nat (tm_sec t1)" and "s2 = nat (tm_sec t2)"
  note defs = y1_def y2_def m1_def m2_def d1_def d2_def h1_def h2_def i1_def i2_def s1_def s2_def
  have r: "y1 < 10 ^ 4" "y2 < 10 ^ 4" "m1 < 10 ^ 2" "m2 < 10 ^ 2" "d1 < 10 ^ 2" "d2 < 10 ^ 2"
    "h1 < 10 ^ 2" "h2 < 10 ^ 2" "i1 < 10 ^ 2" "i2 < 10 ^ 2" "s1 < 10 ^ 2" "s2 < 10 ^ 2"
    using assms(1,2) by (auto simp: tm_valid_def defs)
  have c: "y1 < y2 \<longleftrightarrow> tm_year t1 < tm_year t2" "y1 = y2 \<longleftrightarrow> tm_year t1 = tm_year t2"
    "m1 < m2 \<longleftrightarrow> tm_mon t1 < tm_mon t2" "m1 = m2 \<longleftrightarrow> tm_mon t1 = tm_mon t2"
    "d1 < d2 \<longleftrightarrow> tm_mday t1 < tm_mday t2" "d1 = d2 \<longleftrightarrow> tm_mday t1 = tm_mday t2"
    "h1 < h2 \<longleftrightarrow> tm_hour t1 < tm_hour t2" "h1 = h2 \<longleftrightarrow> tm_hour t1 = tm_hour t2"
    "i1 < i2 \<longleftrightarrow> tm_min t1 < tm_min t2" "i1 = i2 \<longleftrightarrow> tm_min t1 = tm_min t2"
    "s1 < s2 \<longleftrightarrow> tm_sec t1 < tm_sec t2"
    using assms(1,2) by (auto simp: tm_valid_def defs)
  have "make_timestamp_folder_name (Some t1) < make_timestamp_folder_name (Some t2)
    \<longleftrightarrow> (y1 < y2 \<or> y1 = y2 \<and> (m1 < m2 \<or> m1 = m2 \<and> (d1 < d2 \<or> d1 = d2 \<and>
          (h1 < h2 \<or> h1 = h2 \<and> (i1 < i2 \<or> i1 = i2 \<and> s1 < s2)))))"
    unfolding name_digits [OF assms(1)] name_digits [OF assms(2)] defs [symmetric]
    by (simp add: append_less_same_length block_less digits_less [OF r(1,2)] digits_eq [OF r(1,2)]
        digits_less [OF r(3,4)] digits_eq [OF r(3,4)] digits_less [OF r(5,6)] digits_eq [OF r(5,6)]
        digits_less [OF r(7,8)] digits_eq [OF r(7,8)] digits_less [OF r(9,10)] digits_eq [OF r(9,10)]
        digits_less [OF r(11,12)])
  also have "\<dots> \<longleftrightarrow> tm_before t1 t2"
    unfolding c tm_before_def ..
  finally show ?thesis using assms(3) by simp
qed

theorem name_order_witness:
  "tm_valid example_time \<and> tm_valid (example_time\<lparr>tm_sec := 6\<rparr>)
   \<and> tm_before example_time (example_time\<lparr>tm_sec := 6\<rparr>)
   \<and> make_timestamp_folder_name (Some example_time)
       < make_timestamp_folder_name (Some (example_time\<lparr>tm_sec := 6\<rparr>))"
proof -
  have a: "tm_valid example_time" "tm_valid (example_time\<lparr>tm_sec := 6\<rparr>)"
    by (simp_all add: tm_valid_def example_time_def)
  have b: "tm_before example_time (example_time\<lparr>tm_sec := 6\<rparr>)"
    by (simp add: tm_before_def example_time_def)
  from name_order [OF a b] a b show ?thesis by blast
qed

section \<open>Delete and restore by name\<close>






















end
